theory Spec2Isabelle
  imports Main "HOL-Library.AList" "HOL-Library.Char_ord" "HOL-Library.List_Lexorder"
begin

section \<open>The meadowgrid coordinator (\<^verbatim>\<open>meadowgrid/coordinator.py\<close>)\<close>

text \<open>
  The coordinator is a class holding two dictionaries, \<^verbatim>\<open>_grid_jobs\<close> and
  \<^verbatim>\<open>_simple_jobs\<close>. Every handler runs without interruption, so a handler is a function
  from the state before the call to a response and the state after it. A Python
  dictionary keeps its keys in insertion order, and the dispatcher iterates over
  \<^verbatim>\<open>.values()\<close>, so a dictionary is an association list: \<open>map_of\<close> looks a key up and
  \<open>AList.update\<close> overwrites a key in place or appends a new one at the end.

  Names follow the source. A leading underscore is written \<open>u_\<close>, and a field name that
  occurs in several classes gets a short prefix in all but one of them.
\<close>

subsection \<open>Messages\<close>

type_synonym bytes = string

text \<open>
  Modelled from the spec: the protobuf messages of \<^verbatim>\<open>meadowgrid_pb2\<close> are not among
  the source files. The spec lists the process states and the fields of each message;
  a field that is not set has the protobuf default (zero, the empty string).
\<close>

datatype ProcessStateEnum =
    DEFAULT
  | RUN_REQUESTED
  | ASSIGNED
  | RUNNING
  | SUCCEEDED
  | RUN_REQUEST_FAILED
  | PYTHON_EXCEPTION
  | NON_ZERO_RETURN_CODE
  | CANCELLED
  | UNKNOWN
  | ERROR_GETTING_STATE
  | REQUEST_IS_DUPLICATE

record ProcessState =
  state :: ProcessStateEnum
  pid :: int
  return_code :: int
  pickled_result :: bytes
  log_file_name :: string

definition ProcessState_of :: "ProcessStateEnum \<Rightarrow> ProcessState" where
  "ProcessState_of st =
     \<lparr>state = st, pid = 0, return_code = 0, pickled_result = [], log_file_name = []\<rparr>"

record GridTask =
  task_id :: int
  pickled_function_arguments :: bytes

datatype JobSpec =
    NoJobSpec
  | PyCommand bytes
  | PyFunction bytes
  | PyGrid "GridTask list" bool

record Job =
  job_id :: string
  job_friendly_name :: string
  priority :: int
  job_spec :: JobSpec

definition empty_Job :: Job where
  "empty_Job = \<lparr>job_id = [], job_friendly_name = [], priority = 0, job_spec = NoJobSpec\<rparr>"

datatype AddJobState = ADDED | IS_DUPLICATE

text \<open>
  The exceptions the sources raise, each with its message. \<open>NotModelled\<close> marks the one
  place where the model does not follow the source (see \<open>u_construct_where_clause\<close>).
\<close>

datatype error =
    ValueError string
  | NotImplementedError string
  | TypeError string
  | IndexError string
  | NotModelled string

subsection \<open>The coordinator's state\<close>

record u_GridTask =
  t_task_id :: int
  t_pickled_function_arguments :: bytes
  t_state :: ProcessState

record u_SimpleJob =
  s_job :: Job
  s_state :: ProcessState

text \<open>
  \<^verbatim>\<open>unassigned_tasks\<close> holds the same objects as \<^verbatim>\<open>all_tasks\<close>. The model keeps a copy
  of the task in each, and a write through \<^verbatim>\<open>all_tasks\<close> (the only place a task is
  written) updates both.
\<close>

record u_GridJob =
  job :: Job
  all_tasks :: "(int \<times> u_GridTask) list"
  unassigned_tasks :: "u_GridTask list"
  all_tasks_added :: bool
  num_current_grid_workers :: int

record Coordinator =
  u_grid_jobs :: "(string \<times> u_GridJob) list"
  u_simple_jobs :: "(string \<times> u_SimpleJob) list"

definition init_Coordinator :: Coordinator where
  "init_Coordinator = \<lparr>u_grid_jobs = [], u_simple_jobs = []\<rparr>"

definition contains :: "('k \<times> 'v) list \<Rightarrow> 'k \<Rightarrow> bool" where
  "contains d k = (map_of d k \<noteq> None)"

subsection \<open>Adding tasks\<close>

text \<open>
  \<^verbatim>\<open>_add_tasks_to_grid_job\<close> mutates the grid job task by task and may raise in the
  middle of the batch. The model returns the error, if any, together with the grid job as
  it is at that moment.
\<close>

fun u_add_tasks_to_grid_job :: "u_GridJob \<Rightarrow> GridTask list \<Rightarrow> error option \<times> u_GridJob" where
  "u_add_tasks_to_grid_job grid_job [] = (None, grid_job)"
| "u_add_tasks_to_grid_job grid_job (task_request # tasks) =
     (if \<not> contains (all_tasks grid_job) (task_id task_request) then
        if all_tasks_added grid_job then
          (Some (ValueError (''Tried to add all_tasks to job '' @ job_id (job grid_job)
             @ '' after it had already been marked as all_tasks_added'')), grid_job)
        else if task_id task_request < 0 then
          (Some (ValueError ''task_ids cannot be negative''), grid_job)
        else
          let grid_task = \<lparr>t_task_id = task_id task_request,
                t_pickled_function_arguments = pickled_function_arguments task_request,
                t_state = ProcessState_of RUN_REQUESTED\<rparr>
          in u_add_tasks_to_grid_job
               (grid_job\<lparr>all_tasks := AList.update (task_id task_request) grid_task (all_tasks grid_job),
                   unassigned_tasks := unassigned_tasks grid_job @ [grid_task]\<rparr>)
               tasks
      else u_add_tasks_to_grid_job grid_job tasks)"

text \<open>
  Modelled from the spec: \<^verbatim>\<open>JOB_ID_VALID_CHARACTERS\<close> lives in \<^verbatim>\<open>meadowgrid.config\<close>,
  which is not among the source files. The spec gives the alphabet: letters, digits,
  \<^verbatim>\<open>.\<close>, \<^verbatim>\<open>-\<close> and \<^verbatim>\<open>_\<close>.
\<close>

definition JOB_ID_VALID_CHARACTERS :: "char list" where
  "JOB_ID_VALID_CHARACTERS =
     ''abcdefghijklmnopqrstuvwxyzABCDEFGHIJKLMNOPQRSTUVWXYZ0123456789._-''"

definition any_invalid :: "string \<Rightarrow> bool" where
  "any_invalid s = list_ex (\<lambda>c. c \<notin> set JOB_ID_VALID_CHARACTERS) s"

definition add_job :: "Coordinator \<Rightarrow> Job \<Rightarrow> (error + AddJobState) \<times> Coordinator" where
  "add_job self request =
     (if job_id request = [] then
        (Inl (ValueError ''job_id must not be None/empty string''), self)
      else if any_invalid (job_id request) \<or> any_invalid (job_friendly_name request) then
        (Inl (ValueError (''job_id '' @ job_id request @ '' or friendly name ''
           @ job_friendly_name request @ '' contains invalid characters. Only ''
           @ ''string.ascii_letters, numbers, ., -, and _ are permitted.'')), self)
      else if contains (u_grid_jobs self) (job_id request)
              \<or> contains (u_simple_jobs self) (job_id request) then
        (Inr IS_DUPLICATE, self)
      else if priority request \<le> 0 then
        (Inl (ValueError ''priority must be greater than 0''), self)
      else
        (case job_spec request of
           PyCommand c \<Rightarrow>
             (Inr ADDED, self\<lparr>u_simple_jobs := AList.update (job_id request)
                \<lparr>s_job = request, s_state = ProcessState_of RUN_REQUESTED\<rparr> (u_simple_jobs self)\<rparr>)
         | PyFunction f \<Rightarrow>
             (Inr ADDED, self\<lparr>u_simple_jobs := AList.update (job_id request)
                \<lparr>s_job = request, s_state = ProcessState_of RUN_REQUESTED\<rparr> (u_simple_jobs self)\<rparr>)
         | PyGrid tasks ata \<Rightarrow>
             (case u_add_tasks_to_grid_job
                     \<lparr>job = request, all_tasks = [], unassigned_tasks = [],
                      all_tasks_added = False, num_current_grid_workers = 0\<rparr> tasks of
                (Some e, grid_job) \<Rightarrow> (Inl e, self)
              | (None, grid_job) \<Rightarrow>
                  (Inr ADDED, self\<lparr>u_grid_jobs := AList.update (job_id request)
                     (grid_job\<lparr>job := request\<lparr>job_spec := PyGrid [] ata\<rparr>,
                         all_tasks_added := ata\<rparr>) (u_grid_jobs self)\<rparr>))
         | NoJobSpec \<Rightarrow> (Inl (ValueError ''Unknown job_spec None''), self)))"

definition add_tasks_to_grid_job ::
  "Coordinator \<Rightarrow> string \<Rightarrow> GridTask list \<Rightarrow> bool \<Rightarrow> (error + unit) \<times> Coordinator" where
  "add_tasks_to_grid_job self r_job_id r_tasks r_all_tasks_added =
     (case map_of (u_grid_jobs self) r_job_id of
        None \<Rightarrow>
          (Inl (ValueError (''job_id '' @ r_job_id @ '' does not exist, so cannot add tasks to it'')),
           self)
      | Some job0 \<Rightarrow>
          (case u_add_tasks_to_grid_job job0 r_tasks of
             (Some e, job1) \<Rightarrow>
               (Inl e, self\<lparr>u_grid_jobs := AList.update r_job_id job1 (u_grid_jobs self)\<rparr>)
           | (None, job1) \<Rightarrow>
               (Inr (),
                self\<lparr>u_grid_jobs := AList.update r_job_id
                  (if r_all_tasks_added then job1\<lparr>all_tasks_added := True\<rparr> else job1)
                  (u_grid_jobs self)\<rparr>)))"


subsection \<open>State updates and dispatch\<close>

fun update_job_states :: "Coordinator \<Rightarrow> (string \<times> ProcessState) list \<Rightarrow> Coordinator" where
  "update_job_states self [] = self"
| "update_job_states self ((js_job_id, js_process_state) # job_states) =
     (case map_of (u_simple_jobs self) js_job_id of
        Some sj \<Rightarrow>
          update_job_states
            (self\<lparr>u_simple_jobs :=
               AList.update js_job_id (sj\<lparr>s_state := js_process_state\<rparr>) (u_simple_jobs self)\<rparr>)
            job_states
      | None \<Rightarrow> update_job_states self job_states)"

text \<open>
  \<^verbatim>\<open>random.choices(population, weights)[0]\<close> raises when the weights do not add up to a
  positive number, and otherwise returns the first element whose cumulative weight
  exceeds a random point \<open>x\<close> below the total (the last element when there is none). The
  random point is an argument of the model: what is proved holds for every \<open>x\<close>.
\<close>

fun pick :: "('a \<times> int) list \<Rightarrow> int \<Rightarrow> 'a option" where
  "pick [] x = None"
| "pick [(a, w)] x = Some a"
| "pick ((a, w) # rest) x = (if x < w then Some a else pick rest (x - w))"

definition choices :: "('a \<times> int) list \<Rightarrow> int \<Rightarrow> error + 'a" where
  "choices weighted x =
     (if sum_list (map snd weighted) \<le> 0 then
        Inl (ValueError ''Total of weights must be greater than zero'')
      else (case pick weighted (x mod sum_list (map snd weighted)) of
              None \<Rightarrow> Inl (ValueError ''Total of weights must be greater than zero'')
            | Some a \<Rightarrow> Inr a))"

definition available_grid_jobs :: "Coordinator \<Rightarrow> (string \<times> u_GridJob) list" where
  "available_grid_jobs self =
     filter (\<lambda>(k, j). int (length (unassigned_tasks j)) > num_current_grid_workers j)
       (u_grid_jobs self)"

definition available_simple_jobs :: "Coordinator \<Rightarrow> (string \<times> u_SimpleJob) list" where
  "available_simple_jobs self =
     filter (\<lambda>(k, j). state (s_state j) = RUN_REQUESTED) (u_simple_jobs self)"

definition available_jobs ::
  "Coordinator \<Rightarrow> ((string \<times> (u_GridJob + u_SimpleJob)) \<times> int) list" where
  "available_jobs self =
     map (\<lambda>(k, j). ((k, Inl j), priority (job j))) (available_grid_jobs self)
     @ map (\<lambda>(k, j). ((k, Inr j), priority (s_job j))) (available_simple_jobs self)"

definition get_next_job :: "Coordinator \<Rightarrow> int \<Rightarrow> (error + Job) \<times> Coordinator" where
  "get_next_job self x =
     (if length (available_jobs self) > 0 then
        (case choices (available_jobs self) x of
           Inl e \<Rightarrow> (Inl e, self)
         | Inr (k, Inl gj) \<Rightarrow>
             (Inr (job gj),
              self\<lparr>u_grid_jobs := AList.update k
                (gj\<lparr>num_current_grid_workers := num_current_grid_workers gj + 1\<rparr>)
                (u_grid_jobs self)\<rparr>)
         | Inr (k, Inr sj) \<Rightarrow>
             (Inr (s_job sj),
              self\<lparr>u_simple_jobs := AList.update k
                (sj\<lparr>s_state := ProcessState_of ASSIGNED\<rparr>) (u_simple_jobs self)\<rparr>))
      else (Inr empty_Job, self))"

text \<open>
  \<^verbatim>\<open>grid_job.all_tasks[task_id].state = process_state\<close> writes to the task object, which
  the queue may still hold.
\<close>

definition set_task_state :: "u_GridJob \<Rightarrow> int \<Rightarrow> ProcessState \<Rightarrow> u_GridJob" where
  "set_task_state grid_job tid ps =
     (case map_of (all_tasks grid_job) tid of
        None \<Rightarrow> grid_job
      | Some t \<Rightarrow>
          grid_job\<lparr>all_tasks := AList.update tid (t\<lparr>t_state := ps\<rparr>) (all_tasks grid_job),
            unassigned_tasks :=
              map (\<lambda>q. if t_task_id q = t_task_id t then q\<lparr>t_state := ps\<rparr> else q)
                (unassigned_tasks grid_job)\<rparr>)"

definition no_task :: GridTask where
  "no_task = \<lparr>task_id = - 1, pickled_function_arguments = []\<rparr>"

definition update_grid_task_state_and_get_next ::
  "Coordinator \<Rightarrow> string \<Rightarrow> int \<Rightarrow> ProcessState \<Rightarrow> GridTask \<times> Coordinator" where
  "update_grid_task_state_and_get_next self r_job_id r_task_id r_process_state =
     (case map_of (u_grid_jobs self) r_job_id of
        None \<Rightarrow> (no_task, self)
      | Some grid_job \<Rightarrow>
          if r_task_id \<noteq> - 1 \<and> \<not> contains (all_tasks grid_job) r_task_id then (no_task, self)
          else
            let grid_job1 =
              (if r_task_id \<noteq> - 1 then set_task_state grid_job r_task_id r_process_state
               else grid_job)
            in (case unassigned_tasks grid_job1 of
                  chosen_task # rest \<Rightarrow>
                    (\<lparr>task_id = t_task_id chosen_task,
                      pickled_function_arguments = t_pickled_function_arguments chosen_task\<rparr>,
                     self\<lparr>u_grid_jobs := AList.update r_job_id
                       (grid_job1\<lparr>unassigned_tasks := rest\<rparr>) (u_grid_jobs self)\<rparr>)
                | [] \<Rightarrow>
                    (no_task,
                     self\<lparr>u_grid_jobs := AList.update r_job_id
                       (grid_job1\<lparr>num_current_grid_workers :=
                          max 0 (num_current_grid_workers grid_job1 - 1)\<rparr>)
                       (u_grid_jobs self)\<rparr>)))"

definition get_simple_job_states :: "Coordinator \<Rightarrow> string list \<Rightarrow> ProcessState list" where
  "get_simple_job_states self r_job_ids =
     map (\<lambda>j. case map_of (u_simple_jobs self) j of
                 Some sj \<Rightarrow> s_state sj
               | None \<Rightarrow> ProcessState_of UNKNOWN) r_job_ids"

definition get_grid_task_states ::
  "Coordinator \<Rightarrow> string \<Rightarrow> int list \<Rightarrow> error + (int \<times> ProcessState) list" where
  "get_grid_task_states self r_job_id task_ids_to_ignore =
     (case map_of (u_grid_jobs self) r_job_id of
        None \<Rightarrow> Inl (ValueError (''grid job_id '' @ r_job_id @ '' does not exist''))
      | Some j \<Rightarrow>
          Inr (map (\<lambda>(k, t). (t_task_id t, t_state t))
                 (filter (\<lambda>(k, t). t_task_id t \<notin> set task_ids_to_ignore)
                    (all_tasks j))))"

subsection \<open>The coordinator as a state machine\<close>

datatype rpc =
    AddJob Job
  | AddTasksToGridJob string "GridTask list" bool
  | UpdateJobStates "(string \<times> ProcessState) list"
  | GetNextJob int
  | UpdateGridTaskStateAndGetNext string int ProcessState
  | GetSimpleJobStates "string list"
  | GetGridTaskStates string "int list"

datatype response =
    Failed error
  | AddJobResponse AddJobState
  | AddTasksResponse
  | UpdateStateResponse
  | JobResponse Job
  | GridTaskResponse GridTask
  | ProcessStates "ProcessState list"
  | GridTaskStates "(int \<times> ProcessState) list"

fun handle :: "Coordinator \<Rightarrow> rpc \<Rightarrow> response \<times> Coordinator" where
  "handle self (AddJob request) =
     (case add_job self request of
        (Inl e, self') \<Rightarrow> (Failed e, self')
      | (Inr r, self') \<Rightarrow> (AddJobResponse r, self'))"
| "handle self (AddTasksToGridJob j tasks ata) =
     (case add_tasks_to_grid_job self j tasks ata of
        (Inl e, self') \<Rightarrow> (Failed e, self')
      | (Inr r, self') \<Rightarrow> (AddTasksResponse, self'))"
| "handle self (UpdateJobStates job_states) =
     (UpdateStateResponse, update_job_states self job_states)"
| "handle self (GetNextJob x) =
     (case get_next_job self x of
        (Inl e, self') \<Rightarrow> (Failed e, self')
      | (Inr r, self') \<Rightarrow> (JobResponse r, self'))"
| "handle self (UpdateGridTaskStateAndGetNext j tid ps) =
     (case update_grid_task_state_and_get_next self j tid ps of
        (t, self') \<Rightarrow> (GridTaskResponse t, self'))"
| "handle self (GetSimpleJobStates ids) = (ProcessStates (get_simple_job_states self ids), self)"
| "handle self (GetGridTaskStates j ignore) =
     (case get_grid_task_states self j ignore of
        Inl e \<Rightarrow> (Failed e, self)
      | Inr r \<Rightarrow> (GridTaskStates r, self))"

text \<open>
  A run of the server: the calls in the order they are handled, each with its response,
  and the state after the last one.
\<close>

fun run :: "Coordinator \<Rightarrow> rpc list \<Rightarrow> (rpc \<times> response) list \<times> Coordinator" where
  "run self [] = ([], self)"
| "run self (c # cs) =
     (case handle self c of
        (r, self') \<Rightarrow> (case run self' cs of (rs, self'') \<Rightarrow> ((c, r) # rs, self'')))"

definition state_after :: "rpc list \<Rightarrow> Coordinator" where
  "state_after cs = snd (run init_Coordinator cs)"

definition log_of :: "rpc list \<Rightarrow> (rpc \<times> response) list" where
  "log_of cs = fst (run init_Coordinator cs)"

subsection \<open>Notions used to state the coordinator's properties\<close>

text \<open>
  The in-memory task that \<^verbatim>\<open>_add_tasks_to_grid_job\<close> builds from a request, and the tasks
  of a batch that are new with respect to the ids already known, in the order of the
  batch (a repeated id counts once).
\<close>

definition mk_task :: "GridTask \<Rightarrow> u_GridTask" where
  "mk_task r = \<lparr>t_task_id = task_id r,
      t_pickled_function_arguments = pickled_function_arguments r,
      t_state = ProcessState_of RUN_REQUESTED\<rparr>"

fun new_tasks :: "int list \<Rightarrow> GridTask list \<Rightarrow> u_GridTask list" where
  "new_tasks seen [] = []"
| "new_tasks seen (r # rs) =
     (if task_id r \<in> set seen then new_tasks seen rs
      else mk_task r # new_tasks (seen @ [task_id r]) rs)"

text \<open>
  A task request passes the checks of the helper when its id is already known (it is then
  ignored) or when it is not negative and the job is still open.
\<close>

definition accepted :: "u_GridJob \<Rightarrow> GridTask \<Rightarrow> bool" where
  "accepted g r \<longleftrightarrow>
     task_id r \<in> set (map fst (all_tasks g)) \<or> (0 \<le> task_id r \<and> \<not> all_tasks_added g)"

definition with_new_tasks :: "u_GridJob \<Rightarrow> GridTask list \<Rightarrow> u_GridJob" where
  "with_new_tasks g rs =
     g\<lparr>all_tasks := all_tasks g
          @ map (\<lambda>t. (t_task_id t, t)) (new_tasks (map fst (all_tasks g)) rs),
       unassigned_tasks := unassigned_tasks g @ new_tasks (map fst (all_tasks g)) rs\<rparr>"

definition workers_nonneg :: "Coordinator \<Rightarrow> bool" where
  "workers_nonneg s = list_all (\<lambda>(k, g). 0 \<le> num_current_grid_workers g) (u_grid_jobs s)"

definition grid_job_ids :: "Coordinator \<Rightarrow> string list" where
  "grid_job_ids s = map fst (u_grid_jobs s)"

definition simple_job_ids :: "Coordinator \<Rightarrow> string list" where
  "simple_job_ids s = map fst (u_simple_jobs s)"

definition job_ids_distinct :: "Coordinator \<Rightarrow> bool" where
  "job_ids_distinct s = distinct (grid_job_ids s @ simple_job_ids s)"

text \<open>
  The task ids a run has handed out for job \<open>j\<close>: the answers to
  \<^verbatim>\<open>UpdateGridTaskStateAndGetNext\<close> for \<open>j\<close> that carry a task, in the order of the calls.
\<close>

definition dispatched_one :: "string \<Rightarrow> rpc \<times> response \<Rightarrow> int list" where
  "dispatched_one j cr =
     (case cr of
        (UpdateGridTaskStateAndGetNext j' tid ps, GridTaskResponse t) \<Rightarrow>
          if j' = j \<and> task_id t \<noteq> - 1 then [task_id t] else []
      | _ \<Rightarrow> [])"

definition dispatched :: "string \<Rightarrow> (rpc \<times> response) list \<Rightarrow> int list" where
  "dispatched j log = concat (map (dispatched_one j) log)"

text \<open>
  The invariant behind the dispatch order. \<^verbatim>\<open>all_tasks\<close> is filled in insertion order and
  never shrinks, so its keys are the tasks ever added, in the order they were added; what
  has been handed out, followed by what is still queued, is that list.
\<close>

definition queue_inv :: "int list \<Rightarrow> u_GridJob \<Rightarrow> bool" where
  "queue_inv h g \<longleftrightarrow>
     h @ map t_task_id (unassigned_tasks g) = map fst (all_tasks g)
     \<and> distinct (map fst (all_tasks g))
     \<and> list_all (\<lambda>k. 0 \<le> k) (map fst (all_tasks g))"

definition fifo_inv :: "Coordinator \<Rightarrow> (string \<Rightarrow> int list) \<Rightarrow> bool" where
  "fifo_inv s H \<longleftrightarrow>
     (\<forall>j. case map_of (u_grid_jobs s) j of None \<Rightarrow> H j = [] | Some g \<Rightarrow> queue_inv (H j) g)"

text \<open>
  The tasks a run has added to job \<open>j\<close>, read off the calls and their answers alone. An
  \<^verbatim>\<open>AddJob\<close> for \<open>j\<close> with a grid spec that is answered \<open>ADDED\<close> adds the tasks of the
  spec; an \<^verbatim>\<open>AddTasksToGridJob\<close> for \<open>j\<close> that succeeds adds its batch; one that fails on
  a job that exists and is not yet marked \<^verbatim>\<open>all_tasks_added\<close> has added the tasks before
  the first negative id, which the helper keeps when it raises. In each batch only the
  first task with an id not seen before counts. The list is in the order of the calls and, within a call, of the batch;
  next to it goes whether the job has been marked \<^verbatim>\<open>all_tasks_added\<close>.
\<close>

definition added_step ::
  "string \<Rightarrow> (int list \<times> bool) option \<Rightarrow> rpc \<times> response \<Rightarrow> (int list \<times> bool) option" where
  "added_step j a cr =
     (case cr of
        (AddJob r, AddJobResponse ADDED) \<Rightarrow>
          if job_id r = j then
            (case job_spec r of
               PyGrid ts ata \<Rightarrow> Some (map t_task_id (new_tasks [] ts), ata)
             | _ \<Rightarrow> a)
          else a
      | (AddTasksToGridJob j' ts ata, AddTasksResponse) \<Rightarrow>
          if j' = j then
            map_option (\<lambda>(ids, marked). (ids @ map t_task_id (new_tasks ids ts), marked \<or> ata)) a
          else a
      | (AddTasksToGridJob j' ts ata, Failed e) \<Rightarrow>
          if j' = j then
            map_option
              (\<lambda>(ids, marked).
                 if marked then (ids, marked)
                 else (ids @ map t_task_id
                         (new_tasks ids (takeWhile (\<lambda>t. 0 \<le> task_id t) ts)), marked)) a
          else a
      | _ \<Rightarrow> a)"

definition added_state :: "string \<Rightarrow> (rpc \<times> response) list \<Rightarrow> (int list \<times> bool) option" where
  "added_state j log = foldl (added_step j) None log"

definition tasks_added :: "string \<Rightarrow> (rpc \<times> response) list \<Rightarrow> int list" where
  "tasks_added j log = (case added_state j log of None \<Rightarrow> [] | Some (ids, marked) \<Rightarrow> ids)"

text \<open>
  The invariant that ties the calls to the state: for every job id, what the calls have
  added is what the grid job of that id holds as keys of \<^verbatim>\<open>all_tasks\<close>, in insertion order.
\<close>

definition summary :: "u_GridJob \<Rightarrow> int list \<times> bool" where
  "summary g = (map fst (all_tasks g), all_tasks_added g)"

definition added_inv :: "Coordinator \<Rightarrow> (string \<Rightarrow> (int list \<times> bool) option) \<Rightarrow> bool" where
  "added_inv s A \<longleftrightarrow> (\<forall>j. A j = map_option summary (map_of (u_grid_jobs s) j))"

definition to_message :: "u_GridTask \<Rightarrow> GridTask" where
  "to_message t = \<lparr>task_id = t_task_id t,
     pickled_function_arguments = t_pickled_function_arguments t\<rparr>"

text \<open>
  A worker's call reports either nothing (\<open>task_id = -1\<close>) or the state of a task of the
  job.
\<close>

definition report_ok :: "u_GridJob \<Rightarrow> int \<times> ProcessState \<Rightarrow> bool" where
  "report_ok g r \<longleftrightarrow> fst r = - 1 \<or> contains (all_tasks g) (fst r)"

definition report_call :: "string \<Rightarrow> int \<times> ProcessState \<Rightarrow> rpc" where
  "report_call j r = UpdateGridTaskStateAndGetNext j (fst r) (snd r)"

subsection \<open>Example jobs\<close>

definition example_tasks :: "GridTask list" where
  "example_tasks =
     [\<lparr>task_id = 0, pickled_function_arguments = ''a0''\<rparr>,
      \<lparr>task_id = 1, pickled_function_arguments = ''a1''\<rparr>,
      \<lparr>task_id = 2, pickled_function_arguments = ''a2''\<rparr>]"

definition example_grid_job :: Job where
  "example_grid_job =
     \<lparr>job_id = ''g1'', job_friendly_name = ''grid'', priority = 1,
      job_spec = PyGrid example_tasks True\<rparr>"

definition example_open_grid_job :: Job where
  "example_open_grid_job =
     \<lparr>job_id = ''g2'', job_friendly_name = ''open'', priority = 2,
      job_spec = PyGrid [\<lparr>task_id = 0, pickled_function_arguments = ''a0''\<rparr>] False\<rparr>"

definition example_simple_job :: Job where
  "example_simple_job =
     \<lparr>job_id = ''j1'', job_friendly_name = ''simple'', priority = 1,
      job_spec = PyCommand ''echo hi''\<rparr>"

definition example_grid_state :: u_GridJob where
  "example_grid_state =
     \<lparr>job = example_grid_job\<lparr>job_spec := PyGrid [] True\<rparr>,
      all_tasks = map (\<lambda>r. (task_id r, mk_task r)) example_tasks,
      unassigned_tasks = map mk_task example_tasks,
      all_tasks_added = True,
      num_current_grid_workers = 0\<rparr>"

definition example_open_grid_state :: u_GridJob where
  "example_open_grid_state =
     \<lparr>job = example_open_grid_job\<lparr>job_spec := PyGrid [] False\<rparr>,
      all_tasks = [(0, mk_task \<lparr>task_id = 0, pickled_function_arguments = ''a0''\<rparr>)],
      unassigned_tasks = [mk_task \<lparr>task_id = 0, pickled_function_arguments = ''a0''\<rparr>],
      all_tasks_added = False,
      num_current_grid_workers = 0\<rparr>"

definition example_reports :: "(int \<times> ProcessState) list" where
  "example_reports =
     [(- 1, ProcessState_of DEFAULT), (0, ProcessState_of SUCCEEDED),
      (1, ProcessState_of PYTHON_EXCEPTION), (2, ProcessState_of SUCCEEDED)]"

text \<open>
  A run with late additions: the open job \<open>g2\<close> is added with task 0, a worker takes a
  task, a batch adds the tasks 1 and 3 (and names task 0 again), and a second batch,
  which fails on the id \<open>-2\<close>, has added task 4 before that.
\<close>

definition example_late_calls :: "rpc list" where
  "example_late_calls =
     [AddJob example_open_grid_job,
      UpdateGridTaskStateAndGetNext ''g2'' (- 1) (ProcessState_of DEFAULT),
      AddTasksToGridJob ''g2''
        [\<lparr>task_id = 1, pickled_function_arguments = ''a1''\<rparr>,
         \<lparr>task_id = 0, pickled_function_arguments = ''again''\<rparr>,
         \<lparr>task_id = 3, pickled_function_arguments = ''a3''\<rparr>] False,
      AddTasksToGridJob ''g2''
        [\<lparr>task_id = 4, pickled_function_arguments = ''a4''\<rparr>,
         \<lparr>task_id = - 2, pickled_function_arguments = ''bad''\<rparr>,
         \<lparr>task_id = 5, pickled_function_arguments = ''a5''\<rparr>] True]"

definition example_late_state :: u_GridJob where
  "example_late_state =
     \<lparr>job = example_open_grid_job\<lparr>job_spec := PyGrid [] False\<rparr>,
      all_tasks = [(0, mk_task \<lparr>task_id = 0, pickled_function_arguments = ''a0''\<rparr>),
                   (1, mk_task \<lparr>task_id = 1, pickled_function_arguments = ''a1''\<rparr>),
                   (3, mk_task \<lparr>task_id = 3, pickled_function_arguments = ''a3''\<rparr>),
                   (4, mk_task \<lparr>task_id = 4, pickled_function_arguments = ''a4''\<rparr>)],
      unassigned_tasks = [mk_task \<lparr>task_id = 1, pickled_function_arguments = ''a1''\<rparr>,
                          mk_task \<lparr>task_id = 3, pickled_function_arguments = ''a3''\<rparr>,
                          mk_task \<lparr>task_id = 4, pickled_function_arguments = ''a4''\<rparr>],
      all_tasks_added = False,
      num_current_grid_workers = 0\<rparr>"

definition example_late_reports :: "(int \<times> ProcessState) list" where
  "example_late_reports =
     [(0, ProcessState_of SUCCEEDED), (1, ProcessState_of SUCCEEDED),
      (- 1, ProcessState_of DEFAULT), (3, ProcessState_of PYTHON_EXCEPTION)]"


section \<open>The versioned table reader (\<^verbatim>\<open>meadowdb/reader.py\<close>)\<close>

subsection \<open>Data model\<close>

text \<open>
  Modelled from the spec: \<^verbatim>\<open>DataFileEntry\<close> and \<^verbatim>\<open>TableSchema\<close> are declared in
  \<^verbatim>\<open>meadowdb.readerwriter_shared\<close> and the table version in the table versions client,
  neither of which is among the source files. The reader uses the fields below. A
  \<^verbatim>\<open>delete_all\<close> entry carries no file name; the reader never looks at the field for such
  an entry. The type of an entry stays a string, as the reader compares it with
  \<^verbatim>\<open>"write"\<close>, \<^verbatim>\<open>"delete"\<close> and \<^verbatim>\<open>"delete_all"\<close> and raises on anything else.
\<close>

record DataFileEntry =
  data_file_type :: string
  data_filename :: string

record TableSchema =
  deduplication_keys :: "string list option"

definition default_TableSchema :: TableSchema where
  "default_TableSchema = \<lparr>deduplication_keys = None\<rparr>"

record TableVersion =
  version_number :: int
  table_schema_filename :: "string option"
  data_list_filename :: string

text \<open>
  The table versions client is an interface with two operations, and \<^verbatim>\<open>pd.read_pickle\<close>
  reads a schema or a list of entries from storage. They are arguments of the model:
  what is proved about \<^verbatim>\<open>read\<close> holds for every registry and every content of the
  storage.
\<close>

record TableVersionsClientLocal =
  get_current_table_version :: "string \<Rightarrow> string \<Rightarrow> int option \<Rightarrow> TableVersion option"
  prepend_data_dir :: "string \<Rightarrow> string"
  read_pickle_schema :: "string \<Rightarrow> TableSchema"
  read_pickle_data_list :: "string \<Rightarrow> DataFileEntry list"

text \<open>
  Modelled from the spec: \<^verbatim>\<open>prod_userspace_name\<close> is a constant of
  \<^verbatim>\<open>meadowdb.connection\<close>; the spec names the parent userspace \<^verbatim>\<open>prod\<close>.
\<close>

definition prod_userspace_name :: string where
  "prod_userspace_name = ''prod''"

text \<open>
  Literals are strings, timestamps, integers and floats. A timestamp and a float are
  kept as the text that \<^verbatim>\<open>str\<close> gives for them. The argument of a comparison is one
  literal, or a sequence of literals (the pair of \<^verbatim>\<open>between\<close>, the items of \<^verbatim>\<open>isin\<close>).
\<close>

datatype literal = LitStr string | LitDatetime string | LitInt int | LitFloat string

datatype comparison_arg = Literal literal | Literals "literal list"

text \<open>
  A column keeps a reference to its table only to compare version numbers, so the model
  keeps the version number.

  \<^verbatim>\<open>__and__\<close> and \<^verbatim>\<open>__or__\<close> store their right operand as it is given, and nothing checks
  the annotation \<^verbatim>\<open>other: MdbBoolColumn\<close>: in \<^verbatim>\<open>(t['a'] == 1) & t['flag']\<close> the second child
  of the \<^verbatim>\<open>MdbComputedBoolColumnOpColumn\<close> is the \<^verbatim>\<open>MdbColumn\<close> itself, which has its own
  \<^verbatim>\<open>__invert__\<close> and \<^verbatim>\<open>_construct_where_clause\<close>. The third constructor is that operand.
\<close>

datatype MdbColumn = MdbColumn int string

datatype MdbBoolColumn =
    MdbComputedBoolColumnOpArg int string string comparison_arg
  | MdbComputedBoolColumnOpColumn MdbBoolColumn MdbBoolColumn string
  | MdbColumnOperand MdbColumn

datatype Op = u_SelectColumnsOp "string list" | u_SelectRowsOp MdbBoolColumn

record MdbTable =
  u_version_number :: int
  u_table_schema :: TableSchema
  u_data_list :: "DataFileEntry list"
  u_ops :: "Op list"

subsection \<open>Reading a table\<close>

definition u_prepend_data_dir_data_file_entries ::
  "TableVersionsClientLocal \<Rightarrow> DataFileEntry list \<Rightarrow> DataFileEntry list" where
  "u_prepend_data_dir_data_file_entries table_version_client data_list =
     map (\<lambda>d. if data_file_type d = ''delete_all'' then d
               else \<lparr>data_file_type = data_file_type d,
                     data_filename = prepend_data_dir table_version_client (data_filename d)\<rparr>)
       data_list"

definition make_table ::
  "TableVersionsClientLocal \<Rightarrow> string option \<Rightarrow> string list \<Rightarrow> int \<Rightarrow> MdbTable" where
  "make_table table_version_client schema_filename data_list_filenames table_version_number =
     \<lparr>u_version_number = table_version_number,
      u_table_schema =
        (case schema_filename of
           Some f \<Rightarrow> read_pickle_schema table_version_client
                       (prepend_data_dir table_version_client f)
         | None \<Rightarrow> default_TableSchema),
      u_data_list =
        concat (map (\<lambda>data_list_filename.
                  u_prepend_data_dir_data_file_entries table_version_client
                    (read_pickle_data_list table_version_client
                       (prepend_data_dir table_version_client data_list_filename)))
                data_list_filenames),
      u_ops = []\<rparr>"

definition read ::
  "TableVersionsClientLocal \<Rightarrow> string \<Rightarrow> string \<Rightarrow> int option \<Rightarrow> error + MdbTable" where
  "read table_version_client userspace table_name max_version_number =
     (let table_version =
            get_current_table_version table_version_client userspace table_name max_version_number
      in
      if userspace = prod_userspace_name then
        (case table_version of
           None \<Rightarrow>
             Inl (ValueError (''Requested table '' @ userspace @ ''/'' @ table_name
                    @ '' does not exist''))
         | Some tv \<Rightarrow>
             Inr (make_table table_version_client (table_schema_filename tv)
                    [data_list_filename tv] (version_number tv)))
      else
        let prod_table_version =
              get_current_table_version table_version_client prod_userspace_name table_name
                max_version_number
        in
        if table_version = None \<and> prod_table_version = None then
          Inl (ValueError (''Requested table '' @ userspace @ ''/'' @ table_name
                 @ '' does not exist and '' @ prod_userspace_name @ ''/'' @ table_name
                 @ '' also does not exist''))
        else
          let table_schema_filename0 =
                (case table_version of
                   Some tv \<Rightarrow>
                     (case table_schema_filename tv of
                        Some f \<Rightarrow> Some f
                      | None \<Rightarrow>
                          (case prod_table_version of
                             Some p \<Rightarrow> table_schema_filename p
                           | None \<Rightarrow> None))
                 | None \<Rightarrow>
                     (case prod_table_version of
                        Some p \<Rightarrow> table_schema_filename p
                      | None \<Rightarrow> None));
              (names1, number1) =
                (case prod_table_version of
                   Some p \<Rightarrow> ([data_list_filename p], version_number p)
                 | None \<Rightarrow> ([], - 1));
              (names2, number2) =
                (case table_version of
                   Some tv \<Rightarrow> (names1 @ [data_list_filename tv], max number1 (version_number tv))
                 | None \<Rightarrow> (names1, number1))
          in Inr (make_table table_version_client table_schema_filename0 names2 number2))"

subsection \<open>Building a query\<close>

definition getitem_column :: "MdbTable \<Rightarrow> string \<Rightarrow> MdbColumn" where
  "getitem_column self item = MdbColumn (u_version_number self) item"

definition getitem_columns :: "MdbTable \<Rightarrow> string list \<Rightarrow> MdbTable" where
  "getitem_columns self item = self\<lparr>u_ops := u_ops self @ [u_SelectColumnsOp item]\<rparr>"

fun column_op :: "MdbColumn \<Rightarrow> string \<Rightarrow> comparison_arg \<Rightarrow> MdbBoolColumn" where
  "column_op (MdbColumn v c) op arg = MdbComputedBoolColumnOpArg v c op arg"

definition column_eq :: "MdbColumn \<Rightarrow> literal \<Rightarrow> MdbBoolColumn" where
  "column_eq self other = column_op self ''='' (Literal other)"

definition column_ne :: "MdbColumn \<Rightarrow> literal \<Rightarrow> MdbBoolColumn" where
  "column_ne self other = column_op self ''!='' (Literal other)"

definition column_gt :: "MdbColumn \<Rightarrow> literal \<Rightarrow> MdbBoolColumn" where
  "column_gt self other = column_op self ''>'' (Literal other)"

definition column_lt :: "MdbColumn \<Rightarrow> literal \<Rightarrow> MdbBoolColumn" where
  "column_lt self other = column_op self ''<'' (Literal other)"

definition column_ge :: "MdbColumn \<Rightarrow> literal \<Rightarrow> MdbBoolColumn" where
  "column_ge self other = column_op self ''>='' (Literal other)"

definition column_le :: "MdbColumn \<Rightarrow> literal \<Rightarrow> MdbBoolColumn" where
  "column_le self other = column_op self ''<='' (Literal other)"

definition between :: "MdbColumn \<Rightarrow> literal \<Rightarrow> literal \<Rightarrow> MdbBoolColumn" where
  "between self a b = column_op self ''BETWEEN'' (Literals [a, b])"

definition isin :: "MdbColumn \<Rightarrow> literal list \<Rightarrow> MdbBoolColumn" where
  "isin self items = column_op self ''IN'' (Literals items)"

definition u_interpret_as_bool :: "MdbColumn \<Rightarrow> MdbBoolColumn" where
  "u_interpret_as_bool self = column_op self ''='' (Literal (LitStr ''TRUE''))"

text \<open>
  \<^verbatim>\<open>MdbTable.__getitem__\<close> with a row selector: a computed column is appended as it is, a
  plain column is first interpreted as a bool.
\<close>

definition getitem_rows :: "MdbTable \<Rightarrow> MdbBoolColumn \<Rightarrow> MdbTable" where
  "getitem_rows self item =
     (case item of
        MdbColumnOperand col \<Rightarrow>
          self\<lparr>u_ops := u_ops self @ [u_SelectRowsOp (u_interpret_as_bool col)]\<rparr>
      | _ \<Rightarrow> self\<lparr>u_ops := u_ops self @ [u_SelectRowsOp item]\<rparr>)"

definition getitem_bool_column :: "MdbTable \<Rightarrow> MdbColumn \<Rightarrow> MdbTable" where
  "getitem_bool_column self item = getitem_rows self (u_interpret_as_bool item)"

text \<open>
  \<^verbatim>\<open>__and__\<close> and \<^verbatim>\<open>__or__\<close> of the two computed classes: both operands are stored as given.
\<close>

definition bool_and :: "MdbBoolColumn \<Rightarrow> MdbBoolColumn \<Rightarrow> MdbBoolColumn" where
  "bool_and self other = MdbComputedBoolColumnOpColumn self other ''AND''"

definition bool_or :: "MdbBoolColumn \<Rightarrow> MdbBoolColumn \<Rightarrow> MdbBoolColumn" where
  "bool_or self other = MdbComputedBoolColumnOpColumn self other ''OR''"

text \<open>
  \<^verbatim>\<open>__and__\<close> and \<^verbatim>\<open>__or__\<close> of \<^verbatim>\<open>MdbColumn\<close>: the left operand is interpreted as a bool, the
  right one is stored as given.
\<close>

definition column_and :: "MdbColumn \<Rightarrow> MdbBoolColumn \<Rightarrow> MdbBoolColumn" where
  "column_and self other = MdbComputedBoolColumnOpColumn (u_interpret_as_bool self) other ''AND''"

definition column_or :: "MdbColumn \<Rightarrow> MdbBoolColumn \<Rightarrow> MdbBoolColumn" where
  "column_or self other = MdbComputedBoolColumnOpColumn (u_interpret_as_bool self) other ''OR''"

text \<open>
  The number of steps from a column to its computed leaves; a plain column is one step
  from its interpretation as a bool. Negation and rendering recurse along it.
\<close>

fun operand_depth :: "MdbBoolColumn \<Rightarrow> nat" where
  "operand_depth (MdbComputedBoolColumnOpArg v c op arg) = 0"
| "operand_depth (MdbComputedBoolColumnOpColumn series_a series_b op) = Suc (operand_depth series_a + operand_depth series_b)"
| "operand_depth (MdbColumnOperand col) = 1"

text \<open>
  \<^verbatim>\<open>__invert__\<close>. The table of comparators is an \<^verbatim>\<open>if\<close>/\<^verbatim>\<open>elif\<close> chain over strings that
  ends in a raise, and so is the one over \<^verbatim>\<open>AND\<close> and \<^verbatim>\<open>OR\<close>.
\<close>

definition new_op :: "string \<Rightarrow> string option" where
  "new_op op =
     (if op = ''='' then Some ''!=''
      else if op = ''!='' then Some ''=''
      else if op = ''>'' then Some ''<=''
      else if op = ''<='' then Some ''>''
      else if op = ''<'' then Some ''>=''
      else if op = ''>='' then Some ''<''
      else if op = ''BETWEEN'' then Some ''NOT BETWEEN''
      else if op = ''NOT BETWEEN'' then Some ''BETWEEN''
      else if op = ''IN'' then Some ''NOT IN''
      else if op = ''NOT IN'' then Some ''IN''
      else None)"

function invert :: "MdbBoolColumn \<Rightarrow> error + MdbBoolColumn" where
  "invert (MdbComputedBoolColumnOpArg v c op arg) =
     (case new_op op of
        None \<Rightarrow> Inl (ValueError (''Programming error: op '' @ op @ '' is not covered''))
      | Some op' \<Rightarrow> Inr (MdbComputedBoolColumnOpArg v c op' arg))"
| "invert (MdbComputedBoolColumnOpColumn series_a series_b op) =
     (if op = ''AND'' then
        (case invert series_a of
           Inl e \<Rightarrow> Inl e
         | Inr a \<Rightarrow>
             (case invert series_b of
                Inl e \<Rightarrow> Inl e
              | Inr b \<Rightarrow> Inr (MdbComputedBoolColumnOpColumn a b ''OR'')))
      else if op = ''OR'' then
        (case invert series_a of
           Inl e \<Rightarrow> Inl e
         | Inr a \<Rightarrow>
             (case invert series_b of
                Inl e \<Rightarrow> Inl e
              | Inr b \<Rightarrow> Inr (MdbComputedBoolColumnOpColumn a b ''AND'')))
      else Inl (ValueError (''Programming error: self._op cannot be '' @ op)))"
| "invert (MdbColumnOperand col) = invert (u_interpret_as_bool col)"
  by pat_completeness auto

termination invert
  apply (relation "measure operand_depth")
    apply (auto simp: u_interpret_as_bool_def)
  subgoal for col by (cases col) simp
  done

definition column_invert :: "MdbColumn \<Rightarrow> error + MdbBoolColumn" where
  "column_invert self = invert (u_interpret_as_bool self)"

subsection \<open>From operations to SQL\<close>

definition u_table_name_placeholder :: string where
  "u_table_name_placeholder = ''[!!__to_be_replaced_table_name__!!]''"

definition u_indicator_column_name :: string where
  "u_indicator_column_name = ''__mdb_reserved_indicator__''"

definition dquote :: string where
  "dquote = [CHR 0x22]"

text \<open>\<^verbatim>\<open>sep.join(xs)\<close>, \<^verbatim>\<open>str(n)\<close> for an integer, and \<^verbatim>\<open>s.replace(old, new)\<close> for a
  non-empty \<^verbatim>\<open>old\<close> (the counter is the number of characters of a match still to skip).\<close>

fun join :: "string \<Rightarrow> string list \<Rightarrow> string" where
  "join sep [] = []"
| "join sep [x] = x"
| "join sep (x # y # ys) = x @ sep @ join sep (y # ys)"

fun str_nat :: "nat \<Rightarrow> string" where
  "str_nat n = (if n < 10 then [''0123456789'' ! n]
                else str_nat (n div 10) @ [''0123456789'' ! (n mod 10)])"

definition str_int :: "int \<Rightarrow> string" where
  "str_int i = (if i < 0 then ''-'' @ str_nat (nat (- i)) else str_nat (nat i))"

fun replace_from :: "string \<Rightarrow> string \<Rightarrow> nat \<Rightarrow> string \<Rightarrow> string" where
  "replace_from old new k [] = []"
| "replace_from old new k (c # cs) =
     (if k > 0 then replace_from old new (k - 1) cs
      else if take (length old) (c # cs) = old
        then new @ replace_from old new (length old - 1) cs
      else c # replace_from old new 0 cs)"

definition replace :: "string \<Rightarrow> string \<Rightarrow> string \<Rightarrow> string" where
  "replace s old new = replace_from old new 0 s"

fun u_single_arg_to_string :: "literal \<Rightarrow> string" where
  "u_single_arg_to_string (LitStr s) = [CHR 0x27] @ s @ [CHR 0x27]"
| "u_single_arg_to_string (LitDatetime s) = [CHR 0x27] @ s @ [CHR 0x27]"
| "u_single_arg_to_string (LitInt i) = str_int i"
| "u_single_arg_to_string (LitFloat s) = s"

text \<open>
  \<^verbatim>\<open>self._arg[0]\<close>, \<^verbatim>\<open>self._arg[1]\<close> and the iteration over \<^verbatim>\<open>self._arg\<close> see the argument
  as a sequence: a tuple or list as it is, a string as its characters, and they raise on
  a single number or timestamp.
\<close>

fun arg_items :: "comparison_arg \<Rightarrow> error + literal list" where
  "arg_items (Literals xs) = Inr xs"
| "arg_items (Literal (LitStr s)) = Inr (map (\<lambda>c. LitStr [c]) s)"
| "arg_items (Literal x) = Inl (TypeError ''argument is not subscriptable or iterable'')"

text \<open>
  \<^verbatim>\<open>_construct_where_clause\<close>. One case is outside the model: a comparator other than
  \<^verbatim>\<open>BETWEEN\<close> and \<^verbatim>\<open>IN\<close> applied to a sequence, where the source prints Python's own
  rendering of the tuple or list. No method of \<^verbatim>\<open>MdbColumn\<close> builds such a column.
\<close>

function u_construct_where_clause :: "MdbBoolColumn \<Rightarrow> MdbTable \<Rightarrow> error + string" where
  "u_construct_where_clause (MdbComputedBoolColumnOpArg v column_name op arg) mdb_table =
     (if v \<noteq> u_version_number mdb_table then
        Inl (ValueError
          ''Using a series from a different table in a row selector is not supported'')
      else if op = ''BETWEEN'' \<or> op = ''NOT BETWEEN'' then
        (case arg_items arg of
           Inl e \<Rightarrow> Inl e
         | Inr (a # b # rest) \<Rightarrow>
             Inr (''('' @ u_table_name_placeholder @ ''.'' @ dquote @ column_name @ dquote
                  @ '' '' @ op @ '' '' @ u_single_arg_to_string a @ '' AND ''
                  @ u_single_arg_to_string b @ '')'')
         | Inr short \<Rightarrow> Inl (IndexError ''index out of range''))
      else if op = ''IN'' \<or> op = ''NOT IN'' then
        (case arg_items arg of
           Inl e \<Rightarrow> Inl e
         | Inr items \<Rightarrow>
             Inr (''('' @ u_table_name_placeholder @ ''.'' @ dquote @ column_name @ dquote
                  @ '' '' @ op @ '' ('' @ join '', '' (map u_single_arg_to_string items)
                  @ ''))''))
      else
        (case arg of
           Literal x \<Rightarrow>
             Inr (''('' @ u_table_name_placeholder @ ''.'' @ dquote @ column_name @ dquote
                  @ '' '' @ op @ '' '' @ u_single_arg_to_string x @ '')'')
         | Literals xs \<Rightarrow> Inl (NotModelled ''a sequence compared as one literal'')))"
| "u_construct_where_clause (MdbComputedBoolColumnOpColumn series_a series_b op) mdb_table =
     (case u_construct_where_clause series_a mdb_table of
        Inl e \<Rightarrow> Inl e
      | Inr a \<Rightarrow>
          (case u_construct_where_clause series_b mdb_table of
             Inl e \<Rightarrow> Inl e
           | Inr b \<Rightarrow> Inr (''('' @ a @ '' '' @ op @ '' '' @ b @ '')'')))"
| "u_construct_where_clause (MdbColumnOperand col) mdb_table =
     u_construct_where_clause (u_interpret_as_bool col) mdb_table"
  by pat_completeness auto

termination u_construct_where_clause
  apply (relation "measure (\<lambda>(p, t). operand_depth p)")
    apply (auto simp: u_interpret_as_bool_def)
  subgoal for col by (cases col) simp
  done

fun column_args :: "Op list \<Rightarrow> string list list" where
  "column_args [] = []"
| "column_args (u_SelectColumnsOp columns_to_select # ops) = columns_to_select # column_args ops"
| "column_args (u_SelectRowsOp filter_column # ops) = column_args ops"

fun row_args :: "Op list \<Rightarrow> MdbBoolColumn list" where
  "row_args [] = []"
| "row_args (u_SelectColumnsOp columns_to_select # ops) = row_args ops"
| "row_args (u_SelectRowsOp filter_column # ops) = filter_column # row_args ops"

text \<open>The loop over \<^verbatim>\<open>column_args[1:]\<close>: it returns the last column list, or raises at the
  first list that has a column the list before it does not have.\<close>

fun narrow_columns :: "string list \<Rightarrow> string list list \<Rightarrow> error + string list" where
  "narrow_columns curr_columns [] = Inr curr_columns"
| "narrow_columns curr_columns (next_columns # rest) =
     (let columns_not_previously_selected = filter (\<lambda>a. a \<notin> set curr_columns) next_columns
      in if length columns_not_previously_selected > 0 then
           Inl (ValueError (''Tried to select columns ''
                  @ join '', '' columns_not_previously_selected
                  @ '' after already filtering them out''))
         else narrow_columns next_columns rest)"

definition select_clause_of :: "Op list \<Rightarrow> error + string" where
  "select_clause_of ops =
     (case column_args ops of
        [] \<Rightarrow> Inr (''SELECT '' @ u_table_name_placeholder @ ''.*'')
      | first # rest \<Rightarrow>
          (case narrow_columns first rest of
             Inl e \<Rightarrow> Inl e
           | Inr curr_columns \<Rightarrow>
               Inr (''SELECT ''
                    @ join '', ''
                        (map (\<lambda>c. u_table_name_placeholder @ ''.'' @ dquote @ c @ dquote)
                           curr_columns))))"

text \<open>
  The row filters. The source folds all filters into \<^verbatim>\<open>curr_filter_column\<close> with
  \<^verbatim>\<open>AND\<close>, and then renders \<^verbatim>\<open>row_args[0]\<close>; the model does the same.
\<close>

definition where_clause_of :: "MdbTable \<Rightarrow> error + string" where
  "where_clause_of self =
     (case row_args (u_ops self) of
        [] \<Rightarrow> Inr ''TRUE''
      | first # rest \<Rightarrow>
          (let curr_filter_column =
                 foldl (\<lambda>curr next_filter_column.
                          MdbComputedBoolColumnOpColumn curr next_filter_column ''AND'')
                   first rest
           in u_construct_where_clause first self))"

definition u_construct_sql :: "MdbTable \<Rightarrow> error + string \<times> string" where
  "u_construct_sql self =
     (case select_clause_of (u_ops self) of
        Inl e \<Rightarrow> Inl e
      | Inr select_clause \<Rightarrow>
          (case where_clause_of self of
             Inl e \<Rightarrow> Inl e
           | Inr where_clause \<Rightarrow> Inr (select_clause, where_clause)))"

subsection \<open>Materializing a table\<close>

text \<open>
  \<^verbatim>\<open>to_pd\<close> drives two libraries: the query engine (a connection on which views are
  created, data frames are registered and SQL is executed) and the data frame library.
  Both are arguments of the model, as a record of operations over a type \<open>'c\<close> of
  connections and a type \<open>'d\<close> of data frames; every operation that can raise returns a
  sum. What is proved about \<^verbatim>\<open>to_pd\<close> holds for every behaviour of the two libraries.
\<close>

record ('c, 'd) engine =
  duckdb_connect :: 'c
  from_parquet_create_view :: "'c \<Rightarrow> string \<Rightarrow> string \<Rightarrow> error + 'c"
  conn_register :: "'c \<Rightarrow> string \<Rightarrow> 'd \<Rightarrow> error + 'c"
  execute_fetchdf :: "'c \<Rightarrow> string \<Rightarrow> error + 'c \<times> 'd"
  pd_DataFrame :: 'd
  pd_len :: "'d \<Rightarrow> nat"
  pd_columns :: "'d \<Rightarrow> string list"
  pd_concat :: "'d list \<Rightarrow> error + 'd"
  pd_concat_ignore_index :: "'d list \<Rightarrow> error + 'd"
  select_assign_indicator :: "'d \<Rightarrow> string list \<Rightarrow> error + 'd"
  set_indicator :: "'d \<Rightarrow> error + 'd"

record ('c, 'd) to_pd_state =
  conn :: 'c
  partition_results :: "'d list"
  deduplication_keys_seen :: 'd
  deletes :: 'd

definition join_on :: "string \<Rightarrow> string \<Rightarrow> string list \<Rightarrow> string" where
  "join_on table_name other cs =
     join '' AND '' (map (\<lambda>c. table_name @ ''.'' @ c @ '' = '' @ other @ ''.'' @ c) cs)"

text \<open>
  The SQL of a write segment, with the registrations that precede it: the four shapes of
  the source, chosen by whether deduplication keys and deletes have been seen.
\<close>

definition write_sql ::
  "('c, 'd) engine \<Rightarrow> string \<Rightarrow> string \<Rightarrow> string list option \<Rightarrow> string
     \<Rightarrow> ('c, 'd) to_pd_state \<Rightarrow> 'c \<Rightarrow> error + 'c \<times> string" where
  "write_sql E select_clause where_clause deduplication_keys0 table_name st c =
     (let sel = replace select_clause u_table_name_placeholder table_name;
          whr = replace where_clause u_table_name_placeholder table_name;
          ds_on = join_on table_name ''ds''
                    (filter (\<lambda>c. c \<noteq> u_indicator_column_name) (pd_columns E (deletes st)))
      in
      if pd_len E (deduplication_keys_seen st) = 0 then
        if pd_len E (deletes st) = 0 then
          Inr (c, sel @ '' FROM '' @ table_name @ '' WHERE '' @ whr)
        else
          (case conn_register E c ''ds'' (deletes st) of
             Inl e \<Rightarrow> Inl e
           | Inr c1 \<Rightarrow>
               Inr (c1, sel @ '' FROM '' @ table_name @ '' LEFT JOIN ds ON '' @ ds_on
                      @ '' WHERE ds.'' @ u_indicator_column_name @ '' IS NULL AND '' @ whr))
      else
        if pd_len E (deletes st) = 0 then
          (case conn_register E c ''pks'' (deduplication_keys_seen st) of
             Inl e \<Rightarrow> Inl e
           | Inr c1 \<Rightarrow>
               (case deduplication_keys0 of
                  None \<Rightarrow> Inl (TypeError ''NoneType object is not iterable'')
                | Some keys \<Rightarrow>
                    Inr (c1, sel @ '' FROM '' @ table_name @ '' LEFT JOIN pks ON ''
                           @ join_on table_name ''pks'' keys
                           @ '' WHERE pks.'' @ u_indicator_column_name @ '' IS NULL AND ''
                           @ whr)))
        else
          (case conn_register E c ''pks'' (deduplication_keys_seen st) of
             Inl e \<Rightarrow> Inl e
           | Inr c1 \<Rightarrow>
               (case conn_register E c1 ''ds'' (deletes st) of
                  Inl e \<Rightarrow> Inl e
                | Inr c2 \<Rightarrow>
                    (case deduplication_keys0 of
                       None \<Rightarrow> Inl (TypeError ''NoneType object is not iterable'')
                     | Some keys \<Rightarrow>
                         Inr (c2, sel @ '' FROM '' @ table_name @ '' LEFT JOIN ds ON '' @ ds_on
                                @ '' LEFT JOIN pks ON '' @ join_on table_name ''pks'' keys
                                @ '' WHERE ds.'' @ u_indicator_column_name @ '' IS NULL AND ''
                                @ ''pks.'' @ u_indicator_column_name @ '' IS NULL AND ''
                                @ whr)))))"

definition materialize_write ::
  "('c, 'd) engine \<Rightarrow> string \<Rightarrow> string \<Rightarrow> string list option \<Rightarrow> nat \<Rightarrow> DataFileEntry
     \<Rightarrow> ('c, 'd) to_pd_state \<Rightarrow> error + ('c, 'd) to_pd_state" where
  "materialize_write E select_clause where_clause deduplication_keys0 i data_file st =
     (let table_name = ''t'' @ str_nat i in
      case from_parquet_create_view E (conn st) (data_filename data_file) table_name of
        Inl e \<Rightarrow> Inl e
      | Inr c \<Rightarrow>
          (case write_sql E select_clause where_clause deduplication_keys0 table_name st c of
             Inl e \<Rightarrow> Inl e
           | Inr (c1, sql) \<Rightarrow>
               (case execute_fetchdf E c1 sql of
                  Inl e \<Rightarrow> Inl e
                | Inr (c2, df) \<Rightarrow>
                    (case deduplication_keys0 of
                       None \<Rightarrow>
                         Inr (st\<lparr>conn := c2,
                                 partition_results := partition_results st @ [df]\<rparr>)
                     | Some keys \<Rightarrow>
                         (case select_assign_indicator E df keys of
                            Inl e \<Rightarrow> Inl e
                          | Inr ks \<Rightarrow>
                              (case pd_concat E [deduplication_keys_seen st, ks] of
                                 Inl e \<Rightarrow> Inl e
                               | Inr seen \<Rightarrow>
                                   Inr (st\<lparr>conn := c2,
                                           partition_results := partition_results st @ [df],
                                           deduplication_keys_seen := seen\<rparr>)))))))"

definition read_delete ::
  "('c, 'd) engine \<Rightarrow> DataFileEntry \<Rightarrow> ('c, 'd) to_pd_state \<Rightarrow> error + ('c, 'd) to_pd_state" where
  "read_delete E data_file st =
     (case from_parquet_create_view E (conn st) (data_filename data_file) ''d'' of
        Inl e \<Rightarrow> Inl e
      | Inr c \<Rightarrow>
          (case execute_fetchdf E c ''SELECT * FROM d'' of
             Inl e \<Rightarrow> Inl e
           | Inr (c1, d0) \<Rightarrow>
               (case set_indicator E d0 of
                  Inl e \<Rightarrow> Inl e
                | Inr d \<Rightarrow>
                    if pd_len E (deletes st) > 0
                       \<and> sort (pd_columns E (deletes st)) \<noteq> sort (pd_columns E d) then
                      Inl (NotImplementedError
                             ''Deletes on different sets of columns is not supported'')
                    else
                      (case pd_concat E [deletes st, d] of
                         Inl e \<Rightarrow> Inl e
                       | Inr ds \<Rightarrow> Inr (st\<lparr>conn := c1, deletes := ds\<rparr>)))))"

text \<open>
  The loop over \<^verbatim>\<open>enumerate(reversed(self._data_list))\<close>: the list it is given is the
  reversed data list, newest segment first, and \<open>i\<close> is the position in it.
\<close>

fun to_pd_loop ::
  "('c, 'd) engine \<Rightarrow> string \<Rightarrow> string \<Rightarrow> string list option \<Rightarrow> nat \<Rightarrow> DataFileEntry list
     \<Rightarrow> ('c, 'd) to_pd_state \<Rightarrow> error + ('c, 'd) to_pd_state" where
  "to_pd_loop E select_clause where_clause deduplication_keys0 i [] st = Inr st"
| "to_pd_loop E select_clause where_clause deduplication_keys0 i (data_file # rest) st =
     (if data_file_type data_file = ''write'' then
        (case materialize_write E select_clause where_clause deduplication_keys0 i data_file st of
           Inl e \<Rightarrow> Inl e
         | Inr st1 \<Rightarrow>
             to_pd_loop E select_clause where_clause deduplication_keys0 (Suc i) rest st1)
      else if data_file_type data_file = ''delete'' then
        (case read_delete E data_file st of
           Inl e \<Rightarrow> Inl e
         | Inr st1 \<Rightarrow>
             to_pd_loop E select_clause where_clause deduplication_keys0 (Suc i) rest st1)
      else if data_file_type data_file = ''delete_all'' then Inr st
      else Inl (ValueError (''data_file_type '' @ data_file_type data_file
                  @ '' is not supported'')))"

definition to_pd :: "('c, 'd) engine \<Rightarrow> MdbTable \<Rightarrow> error + 'd" where
  "to_pd E self =
     (case u_construct_sql self of
        Inl e \<Rightarrow> Inl e
      | Inr (select_clause, where_clause) \<Rightarrow>
          (case to_pd_loop E select_clause where_clause
                  (deduplication_keys (u_table_schema self)) 0 (rev (u_data_list self))
                  \<lparr>conn = duckdb_connect E, partition_results = [],
                   deduplication_keys_seen = pd_DataFrame E, deletes = pd_DataFrame E\<rparr> of
             Inl e \<Rightarrow> Inl e
           | Inr st \<Rightarrow>
               (if length (rev (partition_results st)) = 0 then Inr (pd_DataFrame E)
                else pd_concat_ignore_index E (rev (partition_results st)))))"

subsection \<open>Notions used to state the reader's properties\<close>

text \<open>
  The ten comparators of the negation table, each at the position of its inverse in the
  second list, and the columns whose comparators and connectives are among those the
  source knows. Every column built with the methods of \<^verbatim>\<open>MdbColumn\<close> and with \<^verbatim>\<open>&\<close>,
  \<^verbatim>\<open>|\<close> and \<^verbatim>\<open>~\<close> is of this kind (lemma \<open>builder_well_formed\<close>).
\<close>

definition comparators :: "string list" where
  "comparators = [''='', ''!='', ''>'', ''<='', ''<'', ''>='',
                  ''BETWEEN'', ''NOT BETWEEN'', ''IN'', ''NOT IN'']"

definition inverse_comparators :: "string list" where
  "inverse_comparators = [''!='', ''='', ''<='', ''>'', ''>='', ''<'',
                          ''NOT BETWEEN'', ''BETWEEN'', ''NOT IN'', ''IN'']"

fun well_formed :: "MdbBoolColumn \<Rightarrow> bool" where
  "well_formed (MdbComputedBoolColumnOpArg v c op arg) = (op \<in> set comparators)"
| "well_formed (MdbComputedBoolColumnOpColumn a b op) =
     ((op = ''AND'' \<or> op = ''OR'') \<and> well_formed a \<and> well_formed b)"
| "well_formed (MdbColumnOperand col) = True"

text \<open>
  A column is computed throughout when no operand in it is a plain \<^verbatim>\<open>MdbColumn\<close>, and
  \<open>interpreted p\<close> is \<open>p\<close> with every plain operand replaced by its interpretation as a
  bool, \<^verbatim>\<open>column = 'TRUE'\<close>.
\<close>

fun computed_throughout :: "MdbBoolColumn \<Rightarrow> bool" where
  "computed_throughout (MdbComputedBoolColumnOpArg v c op arg) = True"
| "computed_throughout (MdbComputedBoolColumnOpColumn a b op) =
     (computed_throughout a \<and> computed_throughout b)"
| "computed_throughout (MdbColumnOperand col) = False"

fun interpreted :: "MdbBoolColumn \<Rightarrow> MdbBoolColumn" where
  "interpreted (MdbComputedBoolColumnOpArg v c op arg) = MdbComputedBoolColumnOpArg v c op arg"
| "interpreted (MdbComputedBoolColumnOpColumn a b op) =
     MdbComputedBoolColumnOpColumn (interpreted a) (interpreted b) op"
| "interpreted (MdbColumnOperand col) = u_interpret_as_bool col"

text \<open>
  A chain of projections narrows when every column list has only columns of the list
  before it. The offending columns of a list are those the list before it does not have,
  in the order of the list.
\<close>

fun narrowing :: "string list \<Rightarrow> string list list \<Rightarrow> bool" where
  "narrowing cur [] = True"
| "narrowing cur (next_columns # rest) =
     (list_all (\<lambda>a. a \<in> set cur) next_columns \<and> narrowing next_columns rest)"

definition offending :: "string list \<Rightarrow> string list \<Rightarrow> string list" where
  "offending cur next_columns = filter (\<lambda>a. a \<notin> set cur) next_columns"

definition select_columns_sql :: "string list \<Rightarrow> string" where
  "select_columns_sql cs =
     ''SELECT '' @ join '', '' (map (\<lambda>c. u_table_name_placeholder @ ''.'' @ dquote @ c @ dquote) cs)"

definition narrowing_error :: "string list \<Rightarrow> error" where
  "narrowing_error cs =
     ValueError (''Tried to select columns '' @ join '', '' cs
                 @ '' after already filtering them out'')"

text \<open>The table with the same row filters and, in place of all its projections, one.\<close>

definition only_last_columns :: "MdbTable \<Rightarrow> string list \<Rightarrow> MdbTable" where
  "only_last_columns t cs = t\<lparr>u_ops := map u_SelectRowsOp (row_args (u_ops t)) @ [u_SelectColumnsOp cs]\<rparr>"

text \<open>
  The entries of a table version as \<^verbatim>\<open>read\<close> loads them (none when the version is absent),
  the schema a file name stands for, and the version numbers that are present.
\<close>

definition entries_of :: "TableVersionsClientLocal \<Rightarrow> TableVersion option \<Rightarrow> DataFileEntry list" where
  "entries_of c tv =
     (case tv of
        None \<Rightarrow> []
      | Some v \<Rightarrow>
          u_prepend_data_dir_data_file_entries c
            (read_pickle_data_list c (prepend_data_dir c (data_list_filename v))))"

definition schema_of :: "TableVersionsClientLocal \<Rightarrow> string option \<Rightarrow> TableSchema" where
  "schema_of c f =
     (case f of
        None \<Rightarrow> default_TableSchema
      | Some name \<Rightarrow> read_pickle_schema c (prepend_data_dir c name))"

definition own_schema_filename :: "TableVersion option \<Rightarrow> string option" where
  "own_schema_filename tv = (case tv of None \<Rightarrow> None | Some v \<Rightarrow> table_schema_filename v)"

definition versions_present :: "TableVersion option \<Rightarrow> TableVersion option \<Rightarrow> int list" where
  "versions_present prod_version user_version =
     map version_number (case_option [] (\<lambda>v. [v]) prod_version
                         @ case_option [] (\<lambda>v. [v]) user_version)"

subsection \<open>Example tables\<close>

definition example_table :: MdbTable where
  "example_table = \<lparr>u_version_number = 1, u_table_schema = default_TableSchema,
      u_data_list = [], u_ops = []\<rparr>"

definition example_filter_a :: MdbBoolColumn where
  "example_filter_a = column_eq (getitem_column example_table ''a'') (LitInt 1)"

definition example_filter_b :: MdbBoolColumn where
  "example_filter_b = column_gt (getitem_column example_table ''b'') (LitStr ''x'')"

definition example_filter_flag :: MdbBoolColumn where
  "example_filter_flag = bool_and example_filter_a (MdbColumnOperand (getitem_column example_table ''flag''))"

definition example_two_filters :: MdbTable where
  "example_two_filters = getitem_rows (getitem_rows example_table example_filter_a) example_filter_b"

definition example_ABC_AB :: MdbTable where
  "example_ABC_AB = getitem_columns (getitem_columns example_two_filters [''A'', ''B'', ''C'']) [''A'', ''B'']"

definition example_AB_AC :: MdbTable where
  "example_AB_AC = getitem_columns (getitem_columns example_table [''A'', ''B'']) [''A'', ''C'']"

text \<open>
  An engine for the examples: a data frame is a list of rows, creating a view and
  registering a frame always succeed, and the result of a query is one row that holds the
  text of the query. Materializing with it shows which segments were queried.
\<close>

definition recording_engine :: "((string \<times> string) list, string list) engine" where
  "recording_engine =
     \<lparr>duckdb_connect = [],
      from_parquet_create_view = (\<lambda>c filename view. Inr ((view, filename) # c)),
      conn_register = (\<lambda>c name d. Inr c),
      execute_fetchdf = (\<lambda>c sql. Inr (c, [sql])),
      pd_DataFrame = [],
      pd_len = length,
      pd_columns = (\<lambda>d. []),
      pd_concat = (\<lambda>ds. Inr (concat ds)),
      pd_concat_ignore_index = (\<lambda>ds. Inr (concat ds)),
      select_assign_indicator = (\<lambda>d keys. Inr d),
      set_indicator = (\<lambda>d. Inr d)\<rparr>"

definition example_segments :: "DataFileEntry list" where
  "example_segments =
     [\<lparr>data_file_type = ''write'', data_filename = ''w1.parquet''\<rparr>,
      \<lparr>data_file_type = ''bogus'', data_filename = ''w2.parquet''\<rparr>,
      \<lparr>data_file_type = ''delete_all'', data_filename = []\<rparr>,
      \<lparr>data_file_type = ''write'', data_filename = ''w3.parquet''\<rparr>]"

definition example_segment_table :: MdbTable where
  "example_segment_table = \<lparr>u_version_number = 1, u_table_schema = default_TableSchema,
      u_data_list = example_segments, u_ops = []\<rparr>"

definition example_prod_only_client :: TableVersionsClientLocal where
  "example_prod_only_client =
     \<lparr>get_current_table_version =
        (\<lambda>userspace table_name max_version_number.
           if userspace = ''prod'' \<and> table_name = ''t''
           then Some \<lparr>version_number = 7, table_schema_filename = None,
                      data_list_filename = ''prod.list''\<rparr>
           else None),
      prepend_data_dir = (\<lambda>f. ''/data/'' @ f),
      read_pickle_schema = (\<lambda>f. default_TableSchema),
      read_pickle_data_list =
        (\<lambda>f. if f = ''/data/prod.list''
              then [\<lparr>data_file_type = ''write'', data_filename = ''p1''\<rparr>]
              else [])\<rparr>"

definition example_layered_client :: TableVersionsClientLocal where
  "example_layered_client =
     \<lparr>get_current_table_version =
        (\<lambda>userspace table_name max_version_number.
           if userspace = ''dev''
           then Some \<lparr>version_number = 6, table_schema_filename = Some ''dev.schema'',
                      data_list_filename = ''dev.list''\<rparr>
           else if userspace = ''prod''
           then Some \<lparr>version_number = 5, table_schema_filename = Some ''prod.schema'',
                      data_list_filename = ''prod.list''\<rparr>
           else None),
      prepend_data_dir = (\<lambda>f. ''/data/'' @ f),
      read_pickle_schema =
        (\<lambda>f. if f = ''/data/dev.schema'' then \<lparr>deduplication_keys = Some [''k'']\<rparr>
              else default_TableSchema),
      read_pickle_data_list =
        (\<lambda>f. if f = ''/data/prod.list''
              then [\<lparr>data_file_type = ''write'', data_filename = ''p1''\<rparr>,
                    \<lparr>data_file_type = ''delete_all'', data_filename = []\<rparr>]
              else if f = ''/data/dev.list''
              then [\<lparr>data_file_type = ''delete'', data_filename = ''d1''\<rparr>]
              else [])\<rparr>"

section \<open>Properties of the coordinator\<close>

subsection \<open>Association lists and runs\<close>

lemma contains_iff: "contains d k \<longleftrightarrow> k \<in> fst ` set d"
  by (simp add: contains_def map_of_eq_None_iff)

lemma update_fresh: "k \<notin> fst ` set d \<Longrightarrow> AList.update k v d = d @ [(k, v)]"
  by (induction d) auto

lemma update_cases:
  "(k', v') \<in> set (AList.update k v d) \<Longrightarrow> (k', v') = (k, v) \<or> (k', v') \<in> set d"
  by (induction d) (auto split: if_splits)

lemma keys_update_present:
  "k \<in> fst ` set d \<Longrightarrow> map fst (AList.update k v d) = map fst d"
  by (simp add: update_keys)

lemma keys_update_lookup:
  "map_of d k = Some w \<Longrightarrow> map fst (AList.update k v d) = map fst d"
  by (rule keys_update_present) (auto dest: map_of_SomeD intro: rev_image_eqI)

lemma keys_update_member:
  "(k, w) \<in> set d \<Longrightarrow> map fst (AList.update k v d) = map fst d"
  by (rule keys_update_present) (auto intro: rev_image_eqI)

lemma snd_run_Cons: "snd (run s (c # cs)) = snd (run (snd (handle s c)) cs)"
  by (simp split: prod.splits)

lemma fst_run_Cons:
  "fst (run s (c # cs)) = (c, fst (handle s c)) # fst (run (snd (handle s c)) cs)"
  by (simp split: prod.splits)

lemma run_append:
  "run s (a @ b) = (fst (run s a) @ fst (run (snd (run s a)) b), snd (run (snd (run s a)) b))"
proof (induction a arbitrary: s)
  case Nil
  then show ?case by simp
next
  case (Cons c a)
  have "fst (run s ((c # a) @ b)) = fst (run s (c # a)) @ fst (run (snd (run s (c # a))) b)"
    using Cons[of "snd (handle s c)"] by (simp add: fst_run_Cons snd_run_Cons del: run.simps(2) handle.simps)
  moreover have "snd (run s ((c # a) @ b)) = snd (run (snd (run s (c # a))) b)"
    using Cons[of "snd (handle s c)"] by (simp add: fst_run_Cons snd_run_Cons del: run.simps(2) handle.simps)
  ultimately show ?case by (simp add: prod_eq_iff del: run.simps(2) handle.simps)
qed

lemma fst_run_calls: "map fst (fst (run s cs)) = cs"
  by (induction cs arbitrary: s) (simp_all add: fst_run_Cons del: run.simps(2) handle.simps)

lemma snd_handle:
  "snd (handle s (AddJob r)) = snd (add_job s r)"
  "snd (handle s (AddTasksToGridJob j ts ata)) = snd (add_tasks_to_grid_job s j ts ata)"
  "snd (handle s (UpdateJobStates js)) = update_job_states s js"
  "snd (handle s (GetNextJob x)) = snd (get_next_job s x)"
  "snd (handle s (UpdateGridTaskStateAndGetNext j tid ps))
     = snd (update_grid_task_state_and_get_next s j tid ps)"
  "snd (handle s (GetSimpleJobStates ids)) = s"
  "snd (handle s (GetGridTaskStates j ig)) = s"
  by (simp_all split: prod.splits sum.splits)

lemma fst_handle_update:
  "fst (handle s (UpdateGridTaskStateAndGetNext j tid ps))
     = GridTaskResponse (fst (update_grid_task_state_and_get_next s j tid ps))"
  by (simp split: prod.splits)

lemma fst_handle_add_job:
  "fst (handle s (AddJob r)) = AddJobResponse a \<longleftrightarrow> fst (add_job s r) = Inr a"
  by (auto split: prod.splits sum.splits)

lemma pick_in: "pick w x = Some a \<Longrightarrow> a \<in> fst ` set w"
  by (induction w x rule: pick.induct) (auto split: if_splits)

lemma choices_in: "choices w x = Inr a \<Longrightarrow> a \<in> fst ` set w"
  by (auto simp: choices_def split: if_splits option.splits dest: pick_in)

lemma choices_grid:
  "choices (available_jobs s) x = Inr (k, Inl gj) \<Longrightarrow> (k, gj) \<in> set (u_grid_jobs s)"
  by (drule choices_in) (auto simp: available_jobs_def available_grid_jobs_def)

lemma choices_simple:
  "choices (available_jobs s) x = Inr (k, Inr sj) \<Longrightarrow> (k, sj) \<in> set (u_simple_jobs s)"
  by (drule choices_in) (auto simp: available_jobs_def available_simple_jobs_def)

subsection \<open>Job ids stay distinct\<close>

lemma contains_grid: "contains (u_grid_jobs s) k \<longleftrightarrow> k \<in> set (grid_job_ids s)"
  by (simp add: contains_iff grid_job_ids_def)

lemma contains_simple: "contains (u_simple_jobs s) k \<longleftrightarrow> k \<in> set (simple_job_ids s)"
  by (simp add: contains_iff simple_job_ids_def)

lemma update_job_states_grid [simp]:
  "u_grid_jobs (update_job_states s js) = u_grid_jobs s"
  by (induction s js rule: update_job_states.induct) (auto split: option.splits)

lemma update_job_states_keys [simp]:
  "map fst (u_simple_jobs (update_job_states s js)) = map fst (u_simple_jobs s)"
  by (induction s js rule: update_job_states.induct)
     (auto split: option.splits simp: keys_update_lookup)

lemma add_tasks_keys:
  "grid_job_ids (snd (add_tasks_to_grid_job s j ts ata)) = grid_job_ids s
   \<and> simple_job_ids (snd (add_tasks_to_grid_job s j ts ata)) = simple_job_ids s"
  by (auto simp: add_tasks_to_grid_job_def keys_update_lookup grid_job_ids_def
      simple_job_ids_def split: option.splits prod.splits)

lemma get_next_job_keys:
  "grid_job_ids (snd (get_next_job s x)) = grid_job_ids s
   \<and> simple_job_ids (snd (get_next_job s x)) = simple_job_ids s"
  by (auto simp: get_next_job_def grid_job_ids_def simple_job_ids_def
      split: sum.splits prod.splits
      dest!: choices_grid choices_simple simp: keys_update_member)

lemma update_grid_task_keys:
  "grid_job_ids (snd (update_grid_task_state_and_get_next s j tid ps)) = grid_job_ids s
   \<and> simple_job_ids (snd (update_grid_task_state_and_get_next s j tid ps)) = simple_job_ids s"
  by (auto simp: update_grid_task_state_and_get_next_def Let_def keys_update_lookup
      grid_job_ids_def simple_job_ids_def split: option.splits list.splits)

lemma add_job_keys:
  "(grid_job_ids (snd (add_job s r)) = grid_job_ids s
      \<and> simple_job_ids (snd (add_job s r)) = simple_job_ids s)
   \<or> (job_id r \<notin> set (grid_job_ids s @ simple_job_ids s)
      \<and> ((grid_job_ids (snd (add_job s r)) = grid_job_ids s @ [job_id r]
           \<and> simple_job_ids (snd (add_job s r)) = simple_job_ids s)
        \<or> (simple_job_ids (snd (add_job s r)) = simple_job_ids s @ [job_id r]
           \<and> grid_job_ids (snd (add_job s r)) = grid_job_ids s)))"
  by (auto simp: add_job_def contains_iff update_keys grid_job_ids_def simple_job_ids_def
      split: JobSpec.splits prod.splits option.splits)

lemma handle_keys:
  "(grid_job_ids (snd (handle s c)) = grid_job_ids s
      \<and> simple_job_ids (snd (handle s c)) = simple_job_ids s)
   \<or> (\<exists>k. k \<notin> set (grid_job_ids s @ simple_job_ids s)
      \<and> ((grid_job_ids (snd (handle s c)) = grid_job_ids s @ [k]
           \<and> simple_job_ids (snd (handle s c)) = simple_job_ids s)
        \<or> (simple_job_ids (snd (handle s c)) = simple_job_ids s @ [k]
           \<and> grid_job_ids (snd (handle s c)) = grid_job_ids s)))"
proof (cases c)
  case (AddJob r)
  have "snd (handle s (AddJob r)) = snd (add_job s r)"
    by (auto split: prod.splits sum.splits)
  then show ?thesis using add_job_keys[of s r] AddJob by auto
next
  case (AddTasksToGridJob j ts ata)
  have "snd (handle s (AddTasksToGridJob j ts ata)) = snd (add_tasks_to_grid_job s j ts ata)"
    by (auto split: prod.splits sum.splits)
  then show ?thesis using add_tasks_keys[of s j ts ata] AddTasksToGridJob by simp
next
  case (UpdateJobStates js)
  then show ?thesis by (simp add: grid_job_ids_def simple_job_ids_def)
next
  case (GetNextJob x)
  have "snd (handle s (GetNextJob x)) = snd (get_next_job s x)"
    by (auto split: prod.splits sum.splits)
  then show ?thesis using get_next_job_keys[of s x] GetNextJob by simp
next
  case (UpdateGridTaskStateAndGetNext j tid ps)
  have "snd (handle s (UpdateGridTaskStateAndGetNext j tid ps))
      = snd (update_grid_task_state_and_get_next s j tid ps)"
    by (auto split: prod.splits)
  then show ?thesis using update_grid_task_keys[of s j tid ps] UpdateGridTaskStateAndGetNext
    by simp
next
  case (GetSimpleJobStates ids)
  then show ?thesis by simp
next
  case (GetGridTaskStates j ig)
  then show ?thesis by (auto split: sum.splits)
qed

lemma handle_job_ids_distinct: "job_ids_distinct s \<Longrightarrow> job_ids_distinct (snd (handle s c))"
  using handle_keys[of s c] by (auto simp: job_ids_distinct_def)

lemma handle_grid_keys_mono:
  "k \<in> set (grid_job_ids s) \<Longrightarrow> k \<in> set (grid_job_ids (snd (handle s c)))"
  using handle_keys[of s c] by auto

lemma run_job_ids_distinct: "job_ids_distinct s \<Longrightarrow> job_ids_distinct (snd (run s cs))"
proof (induction cs arbitrary: s)
  case Nil
  then show ?case by simp
next
  case (Cons c cs)
  from Cons.prems have "job_ids_distinct (snd (handle s c))" by (rule handle_job_ids_distinct)
  then have "job_ids_distinct (snd (run (snd (handle s c)) cs))" by (rule Cons.IH)
  then show ?case by (simp only: snd_run_Cons)
qed

lemma run_grid_keys_mono:
  "k \<in> set (grid_job_ids s) \<Longrightarrow> k \<in> set (grid_job_ids (snd (run s cs)))"
proof (induction cs arbitrary: s)
  case Nil
  then show ?case by simp
next
  case (Cons c cs)
  from Cons.prems have "k \<in> set (grid_job_ids (snd (handle s c)))"
    by (rule handle_grid_keys_mono)
  then have "k \<in> set (grid_job_ids (snd (run (snd (handle s c)) cs)))" by (rule Cons.IH)
  then show ?case by (simp only: snd_run_Cons)
qed

lemma distinct_lookup:
  "job_ids_distinct s \<Longrightarrow> (k, g) \<in> set (u_grid_jobs s) \<Longrightarrow> map_of (u_grid_jobs s) k = Some g"
  by (simp add: job_ids_distinct_def grid_job_ids_def)

subsection \<open>Example runs\<close>

lemma valid_example_ids:
  "\<not> any_invalid ''g1''" "\<not> any_invalid ''grid''" "\<not> any_invalid ''j1''"
  "\<not> any_invalid ''simple''" "\<not> any_invalid ''g2''" "\<not> any_invalid ''open''"
  by (simp_all add: any_invalid_def JOB_ID_VALID_CHARACTERS_def)

lemma example_added:
  "state_after [AddJob example_grid_job]
     = \<lparr>u_grid_jobs = [(''g1'', example_grid_state)], u_simple_jobs = []\<rparr>"
  by (simp add: state_after_def add_job_def example_grid_job_def example_tasks_def
      example_grid_state_def init_Coordinator_def contains_def valid_example_ids mk_task_def Let_def)

lemma example_open_added:
  "state_after [AddJob example_open_grid_job]
     = \<lparr>u_grid_jobs = [(''g2'', example_open_grid_state)], u_simple_jobs = []\<rparr>"
  by (simp add: state_after_def add_job_def example_open_grid_job_def
      example_open_grid_state_def init_Coordinator_def contains_def valid_example_ids
      mk_task_def Let_def)

lemma example_simple_added:
  "state_after [AddJob example_simple_job]
     = \<lparr>u_grid_jobs = [],
        u_simple_jobs = [(''j1'', \<lparr>s_job = example_simple_job,
                                  s_state = ProcessState_of RUN_REQUESTED\<rparr>)]\<rparr>"
  by (simp add: state_after_def add_job_def example_simple_job_def
      init_Coordinator_def contains_def valid_example_ids)

lemma example_clamped:
  "state_after (AddJob example_grid_job # map (report_call ''g1'') example_reports)
     = \<lparr>u_grid_jobs = [(''g1'',
          example_grid_state\<lparr>
            all_tasks := [(0, mk_task (example_tasks ! 0)\<lparr>t_state := ProcessState_of SUCCEEDED\<rparr>),
                          (1, mk_task (example_tasks ! 1)\<lparr>t_state := ProcessState_of PYTHON_EXCEPTION\<rparr>),
                          (2, mk_task (example_tasks ! 2)\<lparr>t_state := ProcessState_of SUCCEEDED\<rparr>)],
            unassigned_tasks := []\<rparr>)],
        u_simple_jobs = []\<rparr>"
  by (simp add: state_after_def add_job_def example_grid_job_def example_tasks_def
      example_grid_state_def init_Coordinator_def contains_def valid_example_ids mk_task_def
      Let_def example_reports_def report_call_def
      update_grid_task_state_and_get_next_def set_task_state_def)

subsection \<open>Priority and duplicates\<close>

text \<open>
  Claim C5, as amended. The claim says that a request whose priority is not positive is
  always rejected, also when its job id already exists. The handler looks for a duplicate
  before it looks at the priority, so such a request for an existing job id is answered
  \<open>IS_DUPLICATE\<close> (the counterexample below). What holds: a request whose priority is not
  positive leaves the state unchanged and is never answered \<open>ADDED\<close>; it is answered
  \<open>IS_DUPLICATE\<close> exactly when its job id and friendly name are well formed and the job id
  is already in one of the two maps, and it fails with a \<open>ValueError\<close> in every other
  case.
\<close>

theorem add_job_nonpositive_priority:
  assumes "priority request \<le> 0"
  shows "snd (add_job self request) = self
    \<and> fst (add_job self request) \<noteq> Inr ADDED
    \<and> (fst (add_job self request) = Inr IS_DUPLICATE \<longleftrightarrow>
         job_id request \<noteq> [] \<and> \<not> any_invalid (job_id request)
         \<and> \<not> any_invalid (job_friendly_name request)
         \<and> (contains (u_grid_jobs self) (job_id request)
            \<or> contains (u_simple_jobs self) (job_id request)))
    \<and> (fst (add_job self request) = Inr IS_DUPLICATE
        \<or> (\<exists>msg. fst (add_job self request) = Inl (ValueError msg)))"
  using assms by (simp add: add_job_def)

text \<open>
  The theorem at a request with priority \<open>-3\<close> for a job id that does not exist yet.
\<close>

theorem add_job_nonpositive_priority_witness:
  "priority (example_grid_job\<lparr>priority := - 3\<rparr>) \<le> 0
   \<and> snd (add_job init_Coordinator (example_grid_job\<lparr>priority := - 3\<rparr>)) = init_Coordinator
   \<and> fst (add_job init_Coordinator (example_grid_job\<lparr>priority := - 3\<rparr>))
       = Inl (ValueError ''priority must be greater than 0'')"
proof -
  have h: "priority (example_grid_job\<lparr>priority := - 3\<rparr>) \<le> 0" by simp
  have "fst (add_job init_Coordinator (example_grid_job\<lparr>priority := - 3\<rparr>))
      = Inl (ValueError ''priority must be greater than 0'')"
    by (simp add: add_job_def example_grid_job_def init_Coordinator_def contains_def
        valid_example_ids)
  with add_job_nonpositive_priority[OF h, of init_Coordinator] h show ?thesis by simp
qed

text \<open>
  The counterexample to C5 as stated: after \<open>j1\<close> has been added, a second request for
  \<open>j1\<close> with priority 0 is answered \<open>IS_DUPLICATE\<close>, not rejected.
\<close>

theorem add_job_duplicate_zero_priority:
  "priority (example_simple_job\<lparr>priority := 0\<rparr>) \<le> 0
   \<and> add_job (state_after [AddJob example_simple_job]) (example_simple_job\<lparr>priority := 0\<rparr>)
       = (Inr IS_DUPLICATE, state_after [AddJob example_simple_job])"
  unfolding example_simple_added
  by (simp add: add_job_def contains_def valid_example_ids example_simple_job_def)

subsection \<open>The number of grid workers\<close>

lemma add_tasks_num:
  "num_current_grid_workers (snd (u_add_tasks_to_grid_job g rs)) = num_current_grid_workers g"
  by (induction g rs rule: u_add_tasks_to_grid_job.induct) (simp_all add: Let_def)

lemma set_task_state_num:
  "num_current_grid_workers (set_task_state g tid ps) = num_current_grid_workers g"
  by (simp add: set_task_state_def split: option.splits)

lemma workers_nonneg_update:
  "workers_nonneg s \<Longrightarrow> 0 \<le> num_current_grid_workers g \<Longrightarrow>
   workers_nonneg (s\<lparr>u_grid_jobs := AList.update k g (u_grid_jobs s)\<rparr>)"
  by (auto simp: workers_nonneg_def list_all_iff dest!: update_cases)

lemma workers_nonneg_simple [simp]:
  "workers_nonneg (s\<lparr>u_simple_jobs := x\<rparr>) = workers_nonneg s"
  by (simp add: workers_nonneg_def)

lemma workers_nonneg_lookup:
  "workers_nonneg s \<Longrightarrow> (k, g) \<in> set (u_grid_jobs s) \<Longrightarrow> 0 \<le> num_current_grid_workers g"
  by (auto simp: workers_nonneg_def list_all_iff)

lemma add_job_workers: "workers_nonneg s \<Longrightarrow> workers_nonneg (snd (add_job s r))"
proof -
  assume inv: "workers_nonneg s"
  have "0 \<le> num_current_grid_workers (snd (u_add_tasks_to_grid_job
      \<lparr>job = r, all_tasks = [], unassigned_tasks = [], all_tasks_added = False,
       num_current_grid_workers = 0\<rparr> ts))" for ts
    by (simp add: add_tasks_num)
  with inv show ?thesis
    by (auto simp: add_job_def split: JobSpec.splits prod.splits option.splits
        intro!: workers_nonneg_update) (metis snd_conv)+
qed

lemma add_tasks_workers:
  "workers_nonneg s \<Longrightarrow> workers_nonneg (snd (add_tasks_to_grid_job s j ts ata))"
proof -
  assume inv: "workers_nonneg s"
  show ?thesis
  proof (cases "map_of (u_grid_jobs s) j")
    case None
    with inv show ?thesis by (simp add: add_tasks_to_grid_job_def)
  next
    case (Some g)
    then have "0 \<le> num_current_grid_workers g"
      using inv by (auto dest: map_of_SomeD workers_nonneg_lookup)
    then have "0 \<le> num_current_grid_workers (snd (u_add_tasks_to_grid_job g ts))"
      by (simp add: add_tasks_num)
    with inv Some show ?thesis
      by (auto simp: add_tasks_to_grid_job_def split: prod.splits option.splits
          intro!: workers_nonneg_update)
  qed
qed

lemma get_next_job_workers: "workers_nonneg s \<Longrightarrow> workers_nonneg (snd (get_next_job s x))"
  by (auto simp: get_next_job_def split: sum.splits prod.splits
      intro!: workers_nonneg_update dest!: choices_grid dest: workers_nonneg_lookup)

lemma update_grid_task_workers:
  "workers_nonneg s \<Longrightarrow> workers_nonneg (snd (update_grid_task_state_and_get_next s j tid ps))"
  by (auto simp: update_grid_task_state_and_get_next_def Let_def set_task_state_num
      split: option.splits list.splits
      intro!: workers_nonneg_update dest!: map_of_SomeD dest: workers_nonneg_lookup)

lemma handle_workers: "workers_nonneg s \<Longrightarrow> workers_nonneg (snd (handle s c))"
proof (cases c)
  case (AddJob r)
  assume "workers_nonneg s"
  then show ?thesis using add_job_workers[of s r] AddJob by (auto split: prod.splits sum.splits)
next
  case (AddTasksToGridJob j ts ata)
  assume "workers_nonneg s"
  then show ?thesis using add_tasks_workers[of s j ts ata] AddTasksToGridJob
    by (auto split: prod.splits sum.splits)
next
  case (UpdateJobStates js)
  assume "workers_nonneg s"
  then show ?thesis using UpdateJobStates by (simp add: workers_nonneg_def)
next
  case (GetNextJob x)
  assume "workers_nonneg s"
  then show ?thesis using get_next_job_workers[of s x] GetNextJob
    by (auto split: prod.splits sum.splits)
next
  case (UpdateGridTaskStateAndGetNext j tid ps)
  assume "workers_nonneg s"
  then show ?thesis using update_grid_task_workers[of s j tid ps] UpdateGridTaskStateAndGetNext
    by (auto split: prod.splits)
next
  case (GetSimpleJobStates ids)
  assume "workers_nonneg s"
  then show ?thesis using GetSimpleJobStates by simp
next
  case (GetGridTaskStates j ig)
  assume "workers_nonneg s"
  then show ?thesis using GetGridTaskStates by (auto split: sum.splits)
qed

lemma run_workers: "workers_nonneg s \<Longrightarrow> workers_nonneg (snd (run s cs))"
proof (induction cs arbitrary: s)
  case Nil
  then show ?case by simp
next
  case (Cons c cs)
  from Cons.prems have "workers_nonneg (snd (handle s c))" by (rule handle_workers)
  then have "workers_nonneg (snd (run (snd (handle s c)) cs))" by (rule Cons.IH)
  then show ?case by (simp only: snd_run_Cons)
qed

lemma get_next_job_num:
  assumes d: "job_ids_distinct s"
    and after: "map_of (u_grid_jobs (snd (get_next_job s x))) k = Some g'"
  shows "\<exists>g. map_of (u_grid_jobs s) k = Some g
           \<and> (num_current_grid_workers g' = num_current_grid_workers g
              \<or> num_current_grid_workers g' = num_current_grid_workers g + 1)"
proof (cases "length (available_jobs s) > 0")
  case False
  with after show ?thesis by (simp add: get_next_job_def)
next
  case True
  show ?thesis
  proof (cases "choices (available_jobs s) x")
    case (Inl e)
    with True after show ?thesis by (simp add: get_next_job_def)
  next
    case (Inr chosen)
    obtain k0 j0 where chosen: "chosen = (k0, j0)" by (cases chosen)
    show ?thesis
    proof (cases j0)
      case (Inl gj)
      with Inr chosen have "(k0, gj) \<in> set (u_grid_jobs s)" by (auto dest: choices_grid)
      with d have "map_of (u_grid_jobs s) k0 = Some gj" by (rule distinct_lookup)
      with True Inr chosen Inl after show ?thesis
        by (auto simp: get_next_job_def update_conv' split: if_splits)
    next
      case (Inr sj)
      with True \<open>choices (available_jobs s) x = Inr chosen\<close> chosen after show ?thesis
        by (simp add: get_next_job_def)
    qed
  qed
qed

lemma update_grid_task_num:
  assumes after: "map_of (u_grid_jobs (snd (update_grid_task_state_and_get_next s j tid ps))) k
      = Some g'"
  shows "\<exists>g. map_of (u_grid_jobs s) k = Some g
           \<and> (num_current_grid_workers g' = num_current_grid_workers g
              \<or> num_current_grid_workers g' = max 0 (num_current_grid_workers g - 1))"
proof (cases "map_of (u_grid_jobs s) j")
  case None
  with after show ?thesis by (simp add: update_grid_task_state_and_get_next_def)
next
  case (Some g)
  show ?thesis
  proof (cases "tid \<noteq> - 1 \<and> \<not> contains (all_tasks g) tid")
    case True
    with Some after show ?thesis by (simp add: update_grid_task_state_and_get_next_def)
  next
    case False
    with Some after show ?thesis
      by (auto simp: update_grid_task_state_and_get_next_def Let_def update_conv'
          set_task_state_num split: if_splits list.splits)
  qed
qed

text \<open>
  Claim C8. In every state the coordinator can reach from its initial state, by any
  sequence of calls with any arguments and any random choices of the dispatcher, the
  \<^verbatim>\<open>num_current_grid_workers\<close> of every grid job is at least 0. It starts at 0,
  \<^verbatim>\<open>get_next_job\<close> adds 1, and the only subtraction, in
  \<^verbatim>\<open>update_grid_task_state_and_get_next\<close> on an empty queue, is \<open>max 0 (n - 1)\<close>: from a
  reachable state, \<^verbatim>\<open>get_next_job\<close> leaves the count of each grid job as it is or adds 1
  to it, and \<^verbatim>\<open>update_grid_task_state_and_get_next\<close> leaves it as it is or replaces \<open>n\<close> by
  \<open>max 0 (n - 1)\<close>.
\<close>

theorem num_current_grid_workers_nonneg:
  "((k, g) \<in> set (u_grid_jobs (state_after cs)) \<longrightarrow> 0 \<le> num_current_grid_workers g)
   \<and> (map_of (u_grid_jobs (snd (get_next_job (state_after cs) x))) k = Some g' \<longrightarrow>
        (\<exists>g0. map_of (u_grid_jobs (state_after cs)) k = Some g0
           \<and> (num_current_grid_workers g' = num_current_grid_workers g0
              \<or> num_current_grid_workers g' = num_current_grid_workers g0 + 1)))
   \<and> (map_of (u_grid_jobs (snd (update_grid_task_state_and_get_next (state_after cs) j tid ps))) k
          = Some g'' \<longrightarrow>
        (\<exists>g0. map_of (u_grid_jobs (state_after cs)) k = Some g0
           \<and> (num_current_grid_workers g'' = num_current_grid_workers g0
              \<or> num_current_grid_workers g'' = max 0 (num_current_grid_workers g0 - 1))))"
proof (intro conjI impI)
  have "workers_nonneg init_Coordinator"
    by (simp add: workers_nonneg_def init_Coordinator_def)
  then have "workers_nonneg (state_after cs)"
    unfolding state_after_def by (rule run_workers)
  then show "0 \<le> num_current_grid_workers g" if "(k, g) \<in> set (u_grid_jobs (state_after cs))"
    using that by (rule workers_nonneg_lookup)
next
  have "job_ids_distinct init_Coordinator"
    by (simp add: job_ids_distinct_def grid_job_ids_def simple_job_ids_def init_Coordinator_def)
  then have "job_ids_distinct (state_after cs)"
    unfolding state_after_def by (rule run_job_ids_distinct)
  then show "\<exists>g0. map_of (u_grid_jobs (state_after cs)) k = Some g0
           \<and> (num_current_grid_workers g' = num_current_grid_workers g0
              \<or> num_current_grid_workers g' = num_current_grid_workers g0 + 1)"
    if "map_of (u_grid_jobs (snd (get_next_job (state_after cs) x))) k = Some g'"
    using that by (rule get_next_job_num)
next
  show "\<exists>g0. map_of (u_grid_jobs (state_after cs)) k = Some g0
           \<and> (num_current_grid_workers g'' = num_current_grid_workers g0
              \<or> num_current_grid_workers g'' = max 0 (num_current_grid_workers g0 - 1))"
    if "map_of (u_grid_jobs (snd (update_grid_task_state_and_get_next (state_after cs) j tid ps))) k
          = Some g''"
    using that by (rule update_grid_task_num)
qed

text \<open>
  The theorem at a run that reaches the clamp: a grid job with three tasks that no worker
  was ever assigned to (the count is 0), and four calls that take the three tasks and
  then find the queue empty. The count is \<open>max 0 (0 - 1) = 0\<close> afterwards.
\<close>

theorem num_current_grid_workers_nonneg_witness:
  "(''g1'', example_grid_state\<lparr>
            all_tasks := [(0, mk_task (example_tasks ! 0)\<lparr>t_state := ProcessState_of SUCCEEDED\<rparr>),
                          (1, mk_task (example_tasks ! 1)\<lparr>t_state := ProcessState_of PYTHON_EXCEPTION\<rparr>),
                          (2, mk_task (example_tasks ! 2)\<lparr>t_state := ProcessState_of SUCCEEDED\<rparr>)],
            unassigned_tasks := []\<rparr>)
     \<in> set (u_grid_jobs (state_after
           (AddJob example_grid_job # map (report_call ''g1'') example_reports)))
   \<and> 0 \<le> num_current_grid_workers example_grid_state"
proof -
  let ?g = "example_grid_state\<lparr>
            all_tasks := [(0, mk_task (example_tasks ! 0)\<lparr>t_state := ProcessState_of SUCCEEDED\<rparr>),
                          (1, mk_task (example_tasks ! 1)\<lparr>t_state := ProcessState_of PYTHON_EXCEPTION\<rparr>),
                          (2, mk_task (example_tasks ! 2)\<lparr>t_state := ProcessState_of SUCCEEDED\<rparr>)],
            unassigned_tasks := []\<rparr>"
  let ?cs = "AddJob example_grid_job # map (report_call ''g1'') example_reports"
  have h: "(''g1'', ?g) \<in> set (u_grid_jobs (state_after ?cs))"
    by (simp add: example_clamped)
  have "(''g1'', ?g) \<in> set (u_grid_jobs (state_after ?cs)) \<longrightarrow> 0 \<le> num_current_grid_workers ?g"
    using num_current_grid_workers_nonneg[of "''g1''" ?g ?cs] by (rule conjunct1)
  with h show ?thesis by simp
qed

subsection \<open>A failing batch of tasks\<close>

lemma add_tasks_split:
  "u_add_tasks_to_grid_job g pre = (None, g1) \<Longrightarrow>
   u_add_tasks_to_grid_job g (pre @ rest) = u_add_tasks_to_grid_job g1 rest"
  by (induction g pre rule: u_add_tasks_to_grid_job.induct) (auto split: if_splits simp: Let_def)

lemma add_tasks_accepts:
  "list_all (accepted g) rs \<Longrightarrow> u_add_tasks_to_grid_job g rs = (None, with_new_tasks g rs)"
proof (induction rs arbitrary: g)
  case Nil
  then show ?case by (simp add: with_new_tasks_def)
next
  case (Cons r rs)
  show ?case
  proof (cases "task_id r \<in> fst ` set (all_tasks g)")
    case True
    with Cons show ?thesis by (simp add: contains_iff with_new_tasks_def)
  next
    case False
    with Cons.prems have ok: "0 \<le> task_id r" "\<not> all_tasks_added g"
      by (auto simp: accepted_def)
    let ?g' = "g\<lparr>all_tasks := all_tasks g @ [(task_id r, mk_task r)],
                 unassigned_tasks := unassigned_tasks g @ [mk_task r]\<rparr>"
    from Cons.prems have "list_all (accepted ?g') rs"
      by (auto simp: accepted_def list_all_iff)
    then have "u_add_tasks_to_grid_job ?g' rs = (None, with_new_tasks ?g' rs)"
      by (rule Cons.IH)
    moreover have "with_new_tasks ?g' rs = with_new_tasks g (r # rs)"
      using False by (simp add: with_new_tasks_def mk_task_def)
    ultimately show ?thesis
      using False ok by (simp add: contains_iff Let_def update_fresh mk_task_def)
  qed
qed

lemma new_tasks_set:
  "t_task_id ` set (new_tasks seen rs) = task_id ` set rs - set seen"
  by (induction rs arbitrary: seen) (auto simp: mk_task_def)

lemma new_tasks_ids:
  "set (map fst (all_tasks (with_new_tasks g rs)))
     = set (map fst (all_tasks g)) \<union> task_id ` set rs"
  using new_tasks_set[of "map fst (all_tasks g)" rs]
  by (auto simp: with_new_tasks_def image_Un image_image)

text \<open>
  Claim C9. Let a batch for an existing grid job \<open>g\<close> be \<open>pre @ bad # post\<close>, where every
  task of \<open>pre\<close> passes the checks and \<open>bad\<close> is a new task that fails them (its id is
  negative, or the job is already marked \<^verbatim>\<open>all_tasks_added\<close>). Then
  \<^verbatim>\<open>add_tasks_to_grid_job\<close> fails with the \<open>ValueError\<close> of that check, and the state it
  leaves behind is not the state before the call: the job holds every new task of \<open>pre\<close>,
  appended to \<^verbatim>\<open>all_tasks\<close> and to the unassigned queue in the order of the batch. Nothing
  of \<open>post\<close> is added and \<^verbatim>\<open>all_tasks_added\<close> is not set.
\<close>

theorem add_tasks_to_grid_job_not_atomic:
  assumes "map_of (u_grid_jobs self) j = Some g"
    and "list_all (accepted g) pre"
    and "task_id bad \<notin> set (map fst (all_tasks g)) \<union> task_id ` set pre"
    and "task_id bad < 0 \<or> all_tasks_added g"
  shows "add_tasks_to_grid_job self j (pre @ bad # post) ata =
           (Inl (if all_tasks_added g
                 then ValueError (''Tried to add all_tasks to job '' @ job_id (job g)
                        @ '' after it had already been marked as all_tasks_added'')
                 else ValueError ''task_ids cannot be negative''),
            self\<lparr>u_grid_jobs := AList.update j (with_new_tasks g pre) (u_grid_jobs self)\<rparr>)"
proof -
  from assms(2) have pre: "u_add_tasks_to_grid_job g pre = (None, with_new_tasks g pre)"
    by (rule add_tasks_accepts)
  from assms(3) have new: "\<not> contains (all_tasks (with_new_tasks g pre)) (task_id bad)"
    using new_tasks_ids[of g pre] by (simp add: contains_iff)
  have same: "all_tasks_added (with_new_tasks g pre) = all_tasks_added g"
    "job (with_new_tasks g pre) = job g"
    by (simp_all add: with_new_tasks_def)
  have "u_add_tasks_to_grid_job g (pre @ bad # post)
      = u_add_tasks_to_grid_job (with_new_tasks g pre) (bad # post)"
    using pre by (rule add_tasks_split)
  also have "\<dots> = (Some (if all_tasks_added g
                 then ValueError (''Tried to add all_tasks to job '' @ job_id (job g)
                        @ '' after it had already been marked as all_tasks_added'')
                 else ValueError ''task_ids cannot be negative''), with_new_tasks g pre)"
    using new assms(4) same by (cases "all_tasks_added g") simp_all
  finally show ?thesis using assms(1) by (simp add: add_tasks_to_grid_job_def)
qed

text \<open>
  The theorem at the open job \<open>g2\<close> with task 0 and the batch of tasks 1, \<open>-2\<close>, 3: the
  call fails on \<open>-2\<close>, and task 1 stays in \<^verbatim>\<open>all_tasks\<close> and in the queue.
\<close>

theorem add_tasks_to_grid_job_not_atomic_witness:
  "map_of (u_grid_jobs (state_after [AddJob example_open_grid_job])) ''g2''
     = Some example_open_grid_state
   \<and> list_all (accepted example_open_grid_state)
       [\<lparr>task_id = 1, pickled_function_arguments = ''a1''\<rparr>]
   \<and> add_tasks_to_grid_job (state_after [AddJob example_open_grid_job]) ''g2''
        ([\<lparr>task_id = 1, pickled_function_arguments = ''a1''\<rparr>]
         @ \<lparr>task_id = - 2, pickled_function_arguments = ''bad''\<rparr>
         # [\<lparr>task_id = 3, pickled_function_arguments = ''a3''\<rparr>]) True
       = (Inl (ValueError ''task_ids cannot be negative''),
          \<lparr>u_grid_jobs = [(''g2'', example_open_grid_state\<lparr>
              all_tasks := [(0, mk_task \<lparr>task_id = 0, pickled_function_arguments = ''a0''\<rparr>),
                            (1, mk_task \<lparr>task_id = 1, pickled_function_arguments = ''a1''\<rparr>)],
              unassigned_tasks := [mk_task \<lparr>task_id = 0, pickled_function_arguments = ''a0''\<rparr>,
                            mk_task \<lparr>task_id = 1, pickled_function_arguments = ''a1''\<rparr>]\<rparr>)],
           u_simple_jobs = []\<rparr>)"
proof -
  let ?s = "state_after [AddJob example_open_grid_job]"
  let ?pre = "[\<lparr>task_id = 1, pickled_function_arguments = ''a1''\<rparr>]"
  let ?bad = "\<lparr>task_id = - 2, pickled_function_arguments = ''bad''\<rparr>"
  have h1: "map_of (u_grid_jobs ?s) ''g2'' = Some example_open_grid_state"
    by (simp add: example_open_added)
  have h2: "list_all (accepted example_open_grid_state) ?pre"
    by (simp add: accepted_def example_open_grid_state_def)
  have h3: "task_id ?bad \<notin> set (map fst (all_tasks example_open_grid_state)) \<union> task_id ` set ?pre"
    by (simp add: example_open_grid_state_def)
  have h4: "task_id ?bad < 0 \<or> all_tasks_added example_open_grid_state"
    by simp
  have new: "with_new_tasks example_open_grid_state ?pre = example_open_grid_state\<lparr>
              all_tasks := [(0, mk_task \<lparr>task_id = 0, pickled_function_arguments = ''a0''\<rparr>),
                            (1, mk_task \<lparr>task_id = 1, pickled_function_arguments = ''a1''\<rparr>)],
              unassigned_tasks := [mk_task \<lparr>task_id = 0, pickled_function_arguments = ''a0''\<rparr>,
                            mk_task \<lparr>task_id = 1, pickled_function_arguments = ''a1''\<rparr>]\<rparr>"
    by (simp add: with_new_tasks_def example_open_grid_state_def mk_task_def)
  have closed: "\<not> all_tasks_added example_open_grid_state"
    by (simp add: example_open_grid_state_def)
  from add_tasks_to_grid_job_not_atomic[OF h1 h2 h3 h4,
      of "[\<lparr>task_id = 3, pickled_function_arguments = ''a3''\<rparr>]" True]
  show ?thesis using h1 h2 by (simp add: new closed example_open_added)
qed

subsection \<open>Dispatch order of grid tasks\<close>

lemma add_tasks_queue_inv:
  "queue_inv h g \<Longrightarrow> queue_inv h (snd (u_add_tasks_to_grid_job g rs))"
proof (induction g rs rule: u_add_tasks_to_grid_job.induct)
  case (1 grid_job)
  then show ?case by simp
next
  case (2 grid_job task_request tasks)
  show ?case
  proof (cases "contains (all_tasks grid_job) (task_id task_request)")
    case True
    with 2 show ?thesis by simp
  next
    case new: False
    show ?thesis
    proof (cases "all_tasks_added grid_job \<or> task_id task_request < 0")
      case True
      with new "2.prems" show ?thesis by auto
    next
      case False
      then have ok: "\<not> all_tasks_added grid_job" "\<not> task_id task_request < 0" by auto
      let ?t = "\<lparr>t_task_id = task_id task_request,
                t_pickled_function_arguments = pickled_function_arguments task_request,
                t_state = ProcessState_of RUN_REQUESTED\<rparr>"
      let ?g = "grid_job\<lparr>all_tasks := AList.update (task_id task_request) ?t (all_tasks grid_job),
                   unassigned_tasks := unassigned_tasks grid_job @ [?t]\<rparr>"
      from new have fresh: "task_id task_request \<notin> fst ` set (all_tasks grid_job)"
        by (simp add: contains_iff)
      have "queue_inv h ?g"
        using "2.prems" fresh ok by (auto simp: queue_inv_def update_fresh)
      then have "queue_inv h (snd (u_add_tasks_to_grid_job ?g tasks))"
        using "2.IH"(1)[OF new ok refl] by simp
      then show ?thesis using new ok by (simp add: Let_def)
    qed
  qed
qed

lemma queue_inv_fields [simp]:
  "queue_inv h (g\<lparr>job := a\<rparr>) = queue_inv h g"
  "queue_inv h (g\<lparr>all_tasks_added := b\<rparr>) = queue_inv h g"
  "queue_inv h (g\<lparr>num_current_grid_workers := n\<rparr>) = queue_inv h g"
  by (simp_all add: queue_inv_def)

lemma set_task_state_queue_ids:
  "map t_task_id (unassigned_tasks (set_task_state g tid ps)) = map t_task_id (unassigned_tasks g)"
proof -
  have "t_task_id (if c then q\<lparr>t_state := ps\<rparr> else q) = t_task_id q" for c and q :: u_GridTask
    by simp
  then show ?thesis
    by (simp add: set_task_state_def o_def split: option.splits)
qed

lemma set_task_state_keys:
  "map fst (all_tasks (set_task_state g tid ps)) = map fst (all_tasks g)"
  by (simp add: set_task_state_def keys_update_lookup split: option.splits)

lemma set_task_state_queue_inv [simp]:
  "queue_inv h (set_task_state g tid ps) = queue_inv h g"
  by (simp add: queue_inv_def set_task_state_queue_ids set_task_state_keys)

lemma queue_inv_pop:
  "queue_inv h g \<Longrightarrow> unassigned_tasks g = q # rest \<Longrightarrow>
   queue_inv (h @ [t_task_id q]) (g\<lparr>unassigned_tasks := rest\<rparr>) \<and> t_task_id q \<noteq> - 1"
proof -
  assume inv: "queue_inv h g" and q: "unassigned_tasks g = q # rest"
  then have eq: "h @ t_task_id q # map t_task_id rest = map fst (all_tasks g)"
    by (simp add: queue_inv_def)
  then have "t_task_id q \<in> set (map fst (all_tasks g))"
    by (metis in_set_conv_decomp)
  with inv have "0 \<le> t_task_id q" by (auto simp: queue_inv_def list_all_iff)
  with inv eq show ?thesis by (simp add: queue_inv_def)
qed

lemma fifo_inv_update:
  "fifo_inv s H \<Longrightarrow> queue_inv (H' k) g' \<Longrightarrow> (\<And>j. j \<noteq> k \<Longrightarrow> H' j = H j) \<Longrightarrow>
   fifo_inv (s\<lparr>u_grid_jobs := AList.update k g' (u_grid_jobs s)\<rparr>) H'"
proof -
  assume inv: "fifo_inv s H" and k: "queue_inv (H' k) g'" and other: "\<And>j. j \<noteq> k \<Longrightarrow> H' j = H j"
  have "case map_of (AList.update k g' (u_grid_jobs s)) j of
          None \<Rightarrow> H' j = [] | Some g \<Rightarrow> queue_inv (H' j) g" for j
  proof (cases "j = k")
    case True
    with k show ?thesis by (simp add: update_conv')
  next
    case False
    with inv other[OF False] show ?thesis
      by (auto simp: fifo_inv_def update_conv' split: option.splits dest: spec[of _ j])
  qed
  then show ?thesis by (simp add: fifo_inv_def)
qed

lemma fifo_inv_same_grid:
  "u_grid_jobs s' = u_grid_jobs s \<Longrightarrow> fifo_inv s' H = fifo_inv s H"
  by (simp add: fifo_inv_def)

lemma fifo_inv_lookup:
  "fifo_inv s H \<Longrightarrow> map_of (u_grid_jobs s) j = Some g \<Longrightarrow> queue_inv (H j) g"
  by (auto simp: fifo_inv_def split: option.splits dest: spec[of _ j])

lemma fifo_inv_absent:
  "fifo_inv s H \<Longrightarrow> map_of (u_grid_jobs s) j = None \<Longrightarrow> H j = []"
  by (auto simp: fifo_inv_def split: option.splits dest: spec[of _ j])

lemma add_job_fifo: "fifo_inv s H \<Longrightarrow> fifo_inv (snd (add_job s r)) H"
proof -
  assume inv: "fifo_inv s H"
  let ?g0 = "\<lparr>job = r, all_tasks = [], unassigned_tasks = [], all_tasks_added = False,
       num_current_grid_workers = 0\<rparr>"
  show ?thesis
  proof (cases "contains (u_grid_jobs s) (job_id r)")
    case True
    with inv show ?thesis by (simp add: add_job_def)
  next
    case False
    with inv have h: "H (job_id r) = []"
      by (auto simp: contains_def dest: fifo_inv_absent)
    have "queue_inv [] ?g0" by (simp add: queue_inv_def)
    then have q: "queue_inv [] (snd (u_add_tasks_to_grid_job ?g0 ts))" for ts
      by (rule add_tasks_queue_inv)
    have grid: "fifo_inv (s\<lparr>u_grid_jobs := AList.update (job_id r)
        ((snd (u_add_tasks_to_grid_job ?g0 ts))\<lparr>job := a, all_tasks_added := b\<rparr>)
        (u_grid_jobs s)\<rparr>) H" for ts a b
      using inv by (rule fifo_inv_update) (simp_all add: h q)
    have simple: "fifo_inv (s\<lparr>u_simple_jobs := x\<rparr>) H" for x
      using inv by (simp add: fifo_inv_def)
    show ?thesis
      using inv simple grid
      by (auto simp: add_job_def split: JobSpec.splits prod.splits option.splits)
         (metis snd_conv)+
  qed
qed

lemma add_tasks_fifo: "fifo_inv s H \<Longrightarrow> fifo_inv (snd (add_tasks_to_grid_job s j ts ata)) H"
proof (cases "map_of (u_grid_jobs s) j")
  case None
  assume "fifo_inv s H"
  with None show ?thesis by (simp add: add_tasks_to_grid_job_def)
next
  case (Some g)
  assume inv: "fifo_inv s H"
  with Some have "queue_inv (H j) g" by (auto dest: fifo_inv_lookup)
  then have q: "queue_inv (H j) (snd (u_add_tasks_to_grid_job g ts))"
    by (rule add_tasks_queue_inv)
  have "fifo_inv (s\<lparr>u_grid_jobs := AList.update j g' (u_grid_jobs s)\<rparr>) H"
    if "queue_inv (H j) g'" for g'
    using inv that by (rule fifo_inv_update) simp
  with q Some show ?thesis
    by (auto simp: add_tasks_to_grid_job_def split: prod.splits option.splits)
qed

lemma get_next_job_fifo:
  "fifo_inv s H \<Longrightarrow> job_ids_distinct s \<Longrightarrow> fifo_inv (snd (get_next_job s x)) H"
proof -
  assume inv: "fifo_inv s H" and d: "job_ids_distinct s"
  have grid: "fifo_inv (s\<lparr>u_grid_jobs := AList.update k
        (gj\<lparr>num_current_grid_workers := n\<rparr>) (u_grid_jobs s)\<rparr>) H"
    if "(k, gj) \<in> set (u_grid_jobs s)" for k gj n
  proof -
    from d that have "map_of (u_grid_jobs s) k = Some gj" by (rule distinct_lookup)
    with inv have "queue_inv (H k) gj" by (auto dest: fifo_inv_lookup)
    then show ?thesis using inv by (intro fifo_inv_update[OF inv]) simp_all
  qed
  have simple: "fifo_inv (s\<lparr>u_simple_jobs := y\<rparr>) H" for y
    using inv by (simp add: fifo_inv_def)
  show ?thesis
    using inv grid simple
    by (auto simp: get_next_job_def split: sum.splits prod.splits dest!: choices_grid)
qed

lemma update_grid_task_fifo:
  "fifo_inv s H \<Longrightarrow>
   fifo_inv (snd (update_grid_task_state_and_get_next s j tid ps))
     (\<lambda>j'. H j' @ dispatched_one j' (UpdateGridTaskStateAndGetNext j tid ps,
        GridTaskResponse (fst (update_grid_task_state_and_get_next s j tid ps))))"
proof (cases "map_of (u_grid_jobs s) j")
  case None
  assume "fifo_inv s H"
  with None show ?thesis
    by (simp add: update_grid_task_state_and_get_next_def dispatched_one_def no_task_def)
next
  case (Some g)
  assume inv: "fifo_inv s H"
  with Some have qi: "queue_inv (H j) g" by (auto dest: fifo_inv_lookup)
  show ?thesis
  proof (cases "tid \<noteq> - 1 \<and> \<not> contains (all_tasks g) tid")
    case True
    with inv Some show ?thesis
      by (simp add: update_grid_task_state_and_get_next_def dispatched_one_def no_task_def)
  next
    case valid: False
    define g1 where "g1 = (if tid \<noteq> - 1 then set_task_state g tid ps else g)"
    have qi1: "queue_inv (H j) g1" using qi by (simp add: g1_def)
    have eq: "update_grid_task_state_and_get_next s j tid ps =
      (case unassigned_tasks g1 of
         chosen_task # rest \<Rightarrow>
           (\<lparr>task_id = t_task_id chosen_task,
             pickled_function_arguments = t_pickled_function_arguments chosen_task\<rparr>,
            s\<lparr>u_grid_jobs := AList.update j (g1\<lparr>unassigned_tasks := rest\<rparr>) (u_grid_jobs s)\<rparr>)
       | [] \<Rightarrow>
           (no_task,
            s\<lparr>u_grid_jobs := AList.update j
              (g1\<lparr>num_current_grid_workers := max 0 (num_current_grid_workers g1 - 1)\<rparr>)
              (u_grid_jobs s)\<rparr>))"
    proof (cases "tid = - 1")
      case True
      then have "g1 = g" by (simp add: g1_def)
      with Some True show ?thesis
        by (simp add: update_grid_task_state_and_get_next_def split: list.splits)
    next
      case report: False
      with valid have known: "contains (all_tasks g) tid" by simp
      from report have "g1 = set_task_state g tid ps" by (simp add: g1_def)
      with Some report known show ?thesis
        by (simp add: update_grid_task_state_and_get_next_def Let_def split: list.splits)
    qed
    show ?thesis
    proof (cases "unassigned_tasks g1")
      case Nil
      have "fifo_inv (s\<lparr>u_grid_jobs := AList.update j
          (g1\<lparr>num_current_grid_workers := max 0 (num_current_grid_workers g1 - 1)\<rparr>)
          (u_grid_jobs s)\<rparr>) H"
        using inv by (rule fifo_inv_update) (simp_all add: qi1)
      with Nil show ?thesis
        by (simp add: eq dispatched_one_def no_task_def)
    next
      case (Cons q rest)
      from queue_inv_pop[OF qi1 Cons]
      have pop: "queue_inv (H j @ [t_task_id q]) (g1\<lparr>unassigned_tasks := rest\<rparr>)"
        and ne: "t_task_id q \<noteq> - 1" by simp_all
      have "fifo_inv (s\<lparr>u_grid_jobs := AList.update j (g1\<lparr>unassigned_tasks := rest\<rparr>)
          (u_grid_jobs s)\<rparr>)
          (\<lambda>j'. H j' @ (if j = j' then [t_task_id q] else []))"
        using inv by (rule fifo_inv_update) (simp_all add: pop)
      with Cons ne show ?thesis
        by (simp add: eq dispatched_one_def cong: if_cong)
    qed
  qed
qed

lemma dispatched_one_simps:
  "dispatched_one j (AddJob r, x) = []"
  "dispatched_one j (AddTasksToGridJob j' ts ata, x) = []"
  "dispatched_one j (UpdateJobStates js, x) = []"
  "dispatched_one j (GetNextJob n, x) = []"
  "dispatched_one j (GetSimpleJobStates ids, x) = []"
  "dispatched_one j (GetGridTaskStates j' ig, x) = []"
  "dispatched_one j (UpdateGridTaskStateAndGetNext j' tid ps, GridTaskResponse t) =
     (if j' = j \<and> task_id t \<noteq> - 1 then [task_id t] else [])"
  by (simp_all add: dispatched_one_def)

lemma handle_fifo:
  "fifo_inv s H \<Longrightarrow> job_ids_distinct s \<Longrightarrow>
   fifo_inv (snd (handle s c)) (\<lambda>j. H j @ dispatched_one j (c, fst (handle s c)))"
proof (cases c)
  case (AddJob r)
  assume "fifo_inv s H"
  then have "fifo_inv (snd (add_job s r)) H" by (rule add_job_fifo)
  then show ?thesis unfolding AddJob by (simp only: snd_handle dispatched_one_simps append_Nil2)
next
  case (AddTasksToGridJob j ts ata)
  assume "fifo_inv s H"
  then have "fifo_inv (snd (add_tasks_to_grid_job s j ts ata)) H" by (rule add_tasks_fifo)
  then show ?thesis unfolding AddTasksToGridJob
    by (simp only: snd_handle dispatched_one_simps append_Nil2)
next
  case (UpdateJobStates js)
  assume "fifo_inv s H"
  then have "fifo_inv (update_job_states s js) H"
    using fifo_inv_same_grid[of "update_job_states s js" s H] by simp
  then show ?thesis unfolding UpdateJobStates
    by (simp only: snd_handle dispatched_one_simps append_Nil2)
next
  case (GetNextJob x)
  assume "fifo_inv s H" and "job_ids_distinct s"
  then have "fifo_inv (snd (get_next_job s x)) H" by (rule get_next_job_fifo)
  then show ?thesis unfolding GetNextJob
    by (simp only: snd_handle dispatched_one_simps append_Nil2)
next
  case (UpdateGridTaskStateAndGetNext j tid ps)
  assume "fifo_inv s H"
  then have "fifo_inv (snd (update_grid_task_state_and_get_next s j tid ps))
     (\<lambda>j'. H j' @ dispatched_one j' (UpdateGridTaskStateAndGetNext j tid ps,
        GridTaskResponse (fst (update_grid_task_state_and_get_next s j tid ps))))"
    by (rule update_grid_task_fifo)
  then show ?thesis unfolding UpdateGridTaskStateAndGetNext
    by (simp only: snd_handle fst_handle_update)
next
  case (GetSimpleJobStates ids)
  assume "fifo_inv s H"
  then show ?thesis unfolding GetSimpleJobStates
    by (simp only: snd_handle dispatched_one_simps append_Nil2)
next
  case (GetGridTaskStates j ig)
  assume "fifo_inv s H"
  then show ?thesis unfolding GetGridTaskStates
    by (simp only: snd_handle dispatched_one_simps append_Nil2)
qed

lemma run_fifo:
  "fifo_inv s H \<Longrightarrow> job_ids_distinct s \<Longrightarrow>
   fifo_inv (snd (run s cs)) (\<lambda>j. H j @ dispatched j (fst (run s cs)))"
proof (induction cs arbitrary: s H)
  case Nil
  then show ?case by (simp add: dispatched_def)
next
  case (Cons c cs)
  let ?s = "snd (handle s c)"
  let ?H = "\<lambda>j. H j @ dispatched_one j (c, fst (handle s c))"
  from Cons.prems have "fifo_inv ?s ?H" by (rule handle_fifo)
  moreover from Cons.prems(2) have "job_ids_distinct ?s" by (rule handle_job_ids_distinct)
  ultimately have "fifo_inv (snd (run ?s cs)) (\<lambda>j. ?H j @ dispatched j (fst (run ?s cs)))"
    by (rule Cons.IH)
  then show ?case by (simp add: snd_run_Cons fst_run_Cons dispatched_def del: run.simps(2) handle.simps)
qed

lemma set_task_state_messages:
  "map to_message (unassigned_tasks (set_task_state g tid ps))
     = map to_message (unassigned_tasks g)"
proof -
  have "to_message (if c then q\<lparr>t_state := ps\<rparr> else q) = to_message q"
    for c and q :: u_GridTask
    by (simp add: to_message_def)
  then show ?thesis
    by (simp add: set_task_state_def o_def split: option.splits)
qed

lemma update_grid_task_valid:
  assumes job: "map_of (u_grid_jobs s) j = Some g"
    and ok: "tid = - 1 \<or> contains (all_tasks g) tid"
  shows "\<exists>g'. map_of (u_grid_jobs (snd (update_grid_task_state_and_get_next s j tid ps))) j
            = Some g'
          \<and> map fst (all_tasks g') = map fst (all_tasks g)
          \<and> (case unassigned_tasks g of
                [] \<Rightarrow> fst (update_grid_task_state_and_get_next s j tid ps) = no_task
              | q # qs \<Rightarrow>
                  fst (update_grid_task_state_and_get_next s j tid ps) = to_message q
                  \<and> map to_message (unassigned_tasks g') = map to_message qs)"
proof -
  define g1 where "g1 = (if tid \<noteq> - 1 then set_task_state g tid ps else g)"
  have eq: "update_grid_task_state_and_get_next s j tid ps =
      (case unassigned_tasks g1 of
         chosen_task # rest \<Rightarrow>
           (to_message chosen_task,
            s\<lparr>u_grid_jobs := AList.update j (g1\<lparr>unassigned_tasks := rest\<rparr>) (u_grid_jobs s)\<rparr>)
       | [] \<Rightarrow>
           (no_task,
            s\<lparr>u_grid_jobs := AList.update j
              (g1\<lparr>num_current_grid_workers := max 0 (num_current_grid_workers g1 - 1)\<rparr>)
              (u_grid_jobs s)\<rparr>))"
  proof (cases "tid = - 1")
    case True
    then have "g1 = g" by (simp add: g1_def)
    with job True show ?thesis
      by (simp add: update_grid_task_state_and_get_next_def to_message_def split: list.splits)
  next
    case report: False
    with ok have known: "contains (all_tasks g) tid" by simp
    from report have "g1 = set_task_state g tid ps" by (simp add: g1_def)
    with job report known show ?thesis
      by (simp add: update_grid_task_state_and_get_next_def Let_def to_message_def
          split: list.splits)
  qed
  have keys: "map fst (all_tasks g1) = map fst (all_tasks g)"
    by (simp add: g1_def set_task_state_keys)
  have msgs: "map to_message (unassigned_tasks g1) = map to_message (unassigned_tasks g)"
    by (simp add: g1_def set_task_state_messages)
  show ?thesis
  proof (cases "unassigned_tasks g1")
    case Nil
    with msgs have "unassigned_tasks g = []" by simp
    with Nil keys show ?thesis by (simp add: eq update_conv')
  next
    case (Cons q1 rest)
    with msgs obtain q qs where g: "unassigned_tasks g = q # qs"
      and q: "to_message q1 = to_message q" and qs: "map to_message rest = map to_message qs"
      by (cases "unassigned_tasks g") auto
    with Cons keys show ?thesis by (simp add: eq update_conv')
  qed
qed

lemma drain:
  "map_of (u_grid_jobs s) j = Some g \<Longrightarrow> map to_message (unassigned_tasks g) = ms \<Longrightarrow>
   length reports = Suc (length ms) \<Longrightarrow> list_all (report_ok g) reports \<Longrightarrow>
   map snd (fst (run s (map (report_call j) reports)))
     = map GridTaskResponse ms @ [GridTaskResponse no_task]"
proof (induction ms arbitrary: s g reports)
  case Nil
  then obtain r where r: "reports = [r]" by (cases reports) auto
  with Nil have ok: "fst r = - 1 \<or> contains (all_tasks g) (fst r)" by (simp add: report_ok_def)
  from Nil have "unassigned_tasks g = []" by simp
  with update_grid_task_valid[OF Nil.prems(1) ok, of "snd r"]
  have "fst (update_grid_task_state_and_get_next s j (fst r) (snd r)) = no_task" by auto
  moreover have "map snd (fst (run s [report_call j r]))
     = [GridTaskResponse (fst (update_grid_task_state_and_get_next s j (fst r) (snd r)))]"
    by (simp add: report_call_def[of j r] fst_run_Cons fst_handle_update
        del: run.simps(2) handle.simps)
  ultimately show ?case by (simp add: r)
next
  case (Cons m ms)
  then obtain r rest where r: "reports = r # rest" by (cases reports) auto
  with Cons.prems have ok: "fst r = - 1 \<or> contains (all_tasks g) (fst r)"
    by (simp add: report_ok_def)
  from Cons.prems obtain q qs where q: "unassigned_tasks g = q # qs" "to_message q = m"
    "map to_message qs = ms" by (cases "unassigned_tasks g") auto
  let ?u = "update_grid_task_state_and_get_next s j (fst r) (snd r)"
  from update_grid_task_valid[OF Cons.prems(1) ok, of "snd r"] q
  obtain g' where g': "map_of (u_grid_jobs (snd ?u)) j = Some g'"
    "map fst (all_tasks g') = map fst (all_tasks g)"
    "fst ?u = to_message q" "map to_message (unassigned_tasks g') = ms"
    by auto
  have "contains (all_tasks g') k = contains (all_tasks g) k" for k
    using g'(2) by (metis contains_iff set_map)
  then have "report_ok g' = report_ok g" by (simp add: report_ok_def fun_eq_iff)
  with Cons.prems r have "list_all (report_ok g') rest" by simp
  moreover from Cons.prems r have "length rest = Suc (length ms)" by simp
  ultimately have "map snd (fst (run (snd ?u) (map (report_call j) rest)))
     = map GridTaskResponse ms @ [GridTaskResponse no_task]"
    using g' by (intro Cons.IH[of "snd ?u" g' rest]) simp_all
  moreover have "map snd (fst (run s (report_call j r # map (report_call j) rest)))
     = GridTaskResponse (fst ?u) # map snd (fst (run (snd ?u) (map (report_call j) rest)))"
    by (simp add: report_call_def[of j r] fst_run_Cons snd_handle fst_handle_update
        del: run.simps(2) handle.simps)
  ultimately show ?case by (simp add: r g' q)
qed

lemma dispatched_reports:
  "map fst log = map (report_call j) reports \<Longrightarrow> map snd log = map GridTaskResponse ms \<Longrightarrow>
   dispatched j log = filter (\<lambda>i. i \<noteq> - 1) (map task_id ms)"
proof (induction log arbitrary: reports ms)
  case Nil
  then show ?case by (simp add: dispatched_def)
next
  case (Cons a log)
  then obtain r rest m ms' where "reports = r # rest" "ms = m # ms'"
    by (cases reports; cases ms) auto
  with Cons show ?case
    by (cases a) (auto simp: dispatched_def report_call_def dispatched_one_simps)
qed

lemma empty_queue_no_task:
  "map_of (u_grid_jobs s) j = Some g \<Longrightarrow> unassigned_tasks g = [] \<Longrightarrow>
   fst (update_grid_task_state_and_get_next s j tid ps) = no_task"
  by (simp add: update_grid_task_state_and_get_next_def Let_def set_task_state_def
      split: option.splits list.splits)

text \<open>
  The state side of the dispatch order: what has been handed out, followed by what is
  queued, is the list of keys of \<^verbatim>\<open>all_tasks\<close>, and one call more than there are queued
  tasks hands all of them out.
\<close>

lemma drained_queue:
  assumes job: "map_of (u_grid_jobs (state_after cs)) j = Some g"
    and len: "length reports = Suc (length (unassigned_tasks g))"
    and ok: "list_all (report_ok g) reports"
  shows "dispatched j (log_of (cs @ map (report_call j) reports)) = map fst (all_tasks g)
    \<and> distinct (map fst (all_tasks g))
    \<and> dispatched j (log_of cs) @ map t_task_id (unassigned_tasks g) = map fst (all_tasks g)
    \<and> snd (last (log_of (cs @ map (report_call j) reports))) = GridTaskResponse no_task
    \<and> (unassigned_tasks g = [] \<longrightarrow>
         fst (update_grid_task_state_and_get_next (state_after cs) j tid ps) = no_task)"
proof -
  have "fifo_inv init_Coordinator (\<lambda>j. [])"
    by (simp add: fifo_inv_def init_Coordinator_def)
  moreover have "job_ids_distinct init_Coordinator"
    by (simp add: job_ids_distinct_def grid_job_ids_def simple_job_ids_def init_Coordinator_def)
  ultimately have "fifo_inv (state_after cs) (\<lambda>j. [] @ dispatched j (log_of cs))"
    unfolding state_after_def log_of_def by (rule run_fifo)
  with job have qi: "queue_inv (dispatched j (log_of cs)) g"
    by (auto dest: fifo_inv_lookup)
  let ?drain = "fst (run (state_after cs) (map (report_call j) reports))"
  have resp: "map snd ?drain
      = map GridTaskResponse (map to_message (unassigned_tasks g) @ [no_task])"
    using drain[OF job refl _ ok] len by simp
  have calls: "map fst ?drain = map (report_call j) reports" by (rule fst_run_calls)
  have nonneg: "i \<noteq> - 1" if "i \<in> set (map t_task_id (unassigned_tasks g))" for i
  proof -
    from that qi have "i \<in> set (map fst (all_tasks g))"
      unfolding queue_inv_def by (metis Un_iff set_append)
    with qi have "0 \<le> i" by (auto simp: queue_inv_def list_all_iff)
    then show ?thesis by simp
  qed
  have "dispatched j ?drain
      = filter (\<lambda>i. i \<noteq> - 1) (map task_id (map to_message (unassigned_tasks g) @ [no_task]))"
    using calls resp by (rule dispatched_reports)
  also have "\<dots> = filter (\<lambda>i. i \<noteq> - 1) (map t_task_id (unassigned_tasks g))"
    by (simp add: to_message_def no_task_def o_def)
  also have "\<dots> = map t_task_id (unassigned_tasks g)"
    using nonneg by (simp add: filter_id_conv)
  finally have d: "dispatched j ?drain = map t_task_id (unassigned_tasks g)" .
  have log: "log_of (cs @ map (report_call j) reports) = log_of cs @ ?drain"
    by (simp add: log_of_def state_after_def run_append)
  have "?drain \<noteq> []" using resp by auto
  then have "snd (last ?drain) = last (map snd ?drain)" by (simp add: last_map)
  also have "\<dots> = GridTaskResponse no_task" by (simp add: resp)
  finally have lst: "snd (last (log_of (cs @ map (report_call j) reports)))
      = GridTaskResponse no_task"
    using \<open>?drain \<noteq> []\<close> by (simp add: log)
  have "fst (update_grid_task_state_and_get_next (state_after cs) j tid ps) = no_task"
    if "unassigned_tasks g = []"
    using job that by (rule empty_queue_no_task)
  with qi d log lst show ?thesis
    by (simp add: queue_inv_def dispatched_def)
qed

subsection \<open>The tasks a run has added\<close>

lemma add_tasks_summary:
  "u_add_tasks_to_grid_job g ts = (r, g') \<Longrightarrow> list_all (\<lambda>k. 0 \<le> k) (map fst (all_tasks g)) \<Longrightarrow>
   all_tasks_added g' = all_tasks_added g
   \<and> map fst (all_tasks g')
       = map fst (all_tasks g) @ map t_task_id
           (if r = None then new_tasks (map fst (all_tasks g)) ts
            else if all_tasks_added g then []
            else new_tasks (map fst (all_tasks g)) (takeWhile (\<lambda>t. 0 \<le> task_id t) ts))"
proof (induction g ts arbitrary: r g' rule: u_add_tasks_to_grid_job.induct)
  case (1 grid_job)
  then show ?case by auto
next
  case (2 grid_job task_request tasks)
  show ?case
  proof (cases "contains (all_tasks grid_job) (task_id task_request)")
    case True
    then have k: "task_id task_request \<in> set (map fst (all_tasks grid_job))"
      by (simp add: contains_iff)
    with "2.prems"(2) have "0 \<le> task_id task_request" by (auto simp: list_all_iff)
    with True k "2.prems" "2.IH"(2)[OF _ _ "2.prems"(2), of r g'] show ?thesis
      by simp
  next
    case new: False
    then have fresh: "task_id task_request \<notin> fst ` set (all_tasks grid_job)"
      by (simp add: contains_iff)
    show ?thesis
    proof (cases "all_tasks_added grid_job \<or> task_id task_request < 0")
      case True
      with new "2.prems" fresh show ?thesis by (auto simp: not_le)
    next
      case False
      then have ok: "\<not> all_tasks_added grid_job" "\<not> task_id task_request < 0" by auto
      let ?t = "\<lparr>t_task_id = task_id task_request,
                t_pickled_function_arguments = pickled_function_arguments task_request,
                t_state = ProcessState_of RUN_REQUESTED\<rparr>"
      let ?g = "grid_job\<lparr>all_tasks := AList.update (task_id task_request) ?t (all_tasks grid_job),
                   unassigned_tasks := unassigned_tasks grid_job @ [?t]\<rparr>"
      have keys: "map fst (all_tasks ?g) = map fst (all_tasks grid_job) @ [task_id task_request]"
        using fresh by (simp add: update_fresh)
      have nn: "list_all (\<lambda>k. 0 \<le> k) (map fst (all_tasks ?g))"
        using "2.prems"(2) ok unfolding keys by simp
      have run: "u_add_tasks_to_grid_job ?g tasks = (r, g')"
        using "2.prems"(1) new ok by (simp add: Let_def)
      from "2.IH"(1)[OF new ok refl run nn] fresh ok
      show ?thesis unfolding keys by (simp add: mk_task_def)
    qed
  qed
qed


lemma added_step_simps:
  "added_step j a (AddJob r, AddJobResponse ADDED) =
     (if job_id r = j then
        (case job_spec r of
           PyGrid ts ata \<Rightarrow> Some (map t_task_id (new_tasks [] ts), ata)
         | _ \<Rightarrow> a)
      else a)"
  "added_step j a (AddJob r, AddJobResponse IS_DUPLICATE) = a"
  "added_step j a (AddJob r, Failed e) = a"
  "added_step j a (AddTasksToGridJob j' ts ata, AddTasksResponse) =
     (if j' = j then
        map_option (\<lambda>(ids, marked). (ids @ map t_task_id (new_tasks ids ts), marked \<or> ata)) a
      else a)"
  "added_step j a (AddTasksToGridJob j' ts ata, Failed e) =
     (if j' = j then
        map_option
          (\<lambda>(ids, marked).
             if marked then (ids, marked)
             else (ids @ map t_task_id
                     (new_tasks ids (takeWhile (\<lambda>t. 0 \<le> task_id t) ts)), marked)) a
      else a)"
  "added_step j a (UpdateJobStates js, x) = a"
  "added_step j a (GetNextJob n, x) = a"
  "added_step j a (UpdateGridTaskStateAndGetNext j' tid ps, x) = a"
  "added_step j a (GetSimpleJobStates ids, x) = a"
  "added_step j a (GetGridTaskStates j' ig, x) = a"
  by (simp_all add: added_step_def)

lemma added_inv_same_grid:
  "u_grid_jobs s' = u_grid_jobs s \<Longrightarrow> added_inv s A \<Longrightarrow> added_inv s' A"
  by (simp add: added_inv_def)

lemma added_inv_update:
  "added_inv s A \<Longrightarrow> A' k = Some (summary g') \<Longrightarrow> (\<And>j. j \<noteq> k \<Longrightarrow> A' j = A j) \<Longrightarrow>
   added_inv (s\<lparr>u_grid_jobs := AList.update k g' (u_grid_jobs s)\<rparr>) A'"
  by (simp add: added_inv_def update_conv')

lemma added_inv_summary:
  "(\<And>j. map_option summary (map_of (u_grid_jobs s') j)
          = map_option summary (map_of (u_grid_jobs s) j)) \<Longrightarrow>
   added_inv s A \<Longrightarrow> added_inv s' A"
  by (simp add: added_inv_def)

lemma update_grid_task_summary:
  "map_option summary (map_of (u_grid_jobs (snd (update_grid_task_state_and_get_next s j tid ps))) j')
   = map_option summary (map_of (u_grid_jobs s) j')"
  by (auto simp: update_grid_task_state_and_get_next_def Let_def update_conv' summary_def
      set_task_state_def keys_update_lookup split: option.splits list.splits)

lemma get_next_job_summary:
  assumes d: "job_ids_distinct s"
  shows "map_option summary (map_of (u_grid_jobs (snd (get_next_job s x))) j')
   = map_option summary (map_of (u_grid_jobs s) j')"
proof -
  have grid: "map_option summary (map_of (AList.update k
        (gj\<lparr>num_current_grid_workers := n\<rparr>) (u_grid_jobs s)) j')
      = map_option summary (map_of (u_grid_jobs s) j')"
    if "(k, gj) \<in> set (u_grid_jobs s)" for k gj n
  proof -
    from d that have "map_of (u_grid_jobs s) k = Some gj" by (rule distinct_lookup)
    then show ?thesis by (simp add: update_conv' summary_def)
  qed
  show ?thesis
    using grid
    by (auto simp: get_next_job_def split: sum.splits prod.splits dest!: choices_grid)
qed


lemma added_step_not_added:
  "x \<noteq> AddJobResponse ADDED \<Longrightarrow> added_step j a (AddJob r, x) = a"
  by (cases x; simp add: added_step_def split: AddJobState.splits)

lemma fst_handle_add_tasks:
  "fst (handle s (AddTasksToGridJob j ts ata))
     = (case fst (add_tasks_to_grid_job s j ts ata) of Inl e \<Rightarrow> Failed e | Inr u \<Rightarrow> AddTasksResponse)"
  by (simp split: prod.splits sum.splits)

lemma fst_handle_add_job_case:
  "fst (handle s (AddJob r))
     = (case fst (add_job s r) of Inl e \<Rightarrow> Failed e | Inr a \<Rightarrow> AddJobResponse a)"
  by (simp split: prod.splits sum.splits)

lemma add_job_added:
  assumes inv: "added_inv s A"
  shows "added_inv (snd (add_job s r)) (\<lambda>j. added_step j (A j) (AddJob r, fst (handle s (AddJob r))))"
proof -
  let ?g0 = "\<lparr>job = r, all_tasks = [], unassigned_tasks = [], all_tasks_added = False,
       num_current_grid_workers = 0\<rparr>"
  have same: ?thesis if "snd (add_job s r) = s" "fst (add_job s r) \<noteq> Inr ADDED"
  proof -
    from that(2) have "fst (handle s (AddJob r)) \<noteq> AddJobResponse ADDED"
      unfolding fst_handle_add_job by simp
    then show ?thesis using inv that(1) by (simp add: added_step_not_added)
  qed
  have simple: ?thesis
    if "fst (add_job s r) = Inr ADDED" "snd (add_job s r) = s\<lparr>u_simple_jobs := x\<rparr>"
      "\<And>ts ata. job_spec r \<noteq> PyGrid ts ata" for x
  proof -
    from that(1) have resp: "fst (handle s (AddJob r)) = AddJobResponse ADDED"
      unfolding fst_handle_add_job by simp
    have "added_step j (A j) (AddJob r, AddJobResponse ADDED) = A j" for j
      using that(3) by (cases "job_spec r") (auto simp: added_step_simps)
    then show ?thesis using inv unfolding resp that(2)
      by (simp add: added_inv_def)
  qed
  have grid: ?thesis
    if "fst (add_job s r) = Inr ADDED" "job_spec r = PyGrid ts ata"
      "\<not> contains (u_grid_jobs s) (job_id r)"
      "u_add_tasks_to_grid_job ?g0 ts = (None, gj)"
      "snd (add_job s r) = s\<lparr>u_grid_jobs := AList.update (job_id r)
         (gj\<lparr>job := r\<lparr>job_spec := PyGrid [] ata\<rparr>, all_tasks_added := ata\<rparr>) (u_grid_jobs s)\<rparr>"
    for ts ata gj
  proof -
    from that(1) have resp: "fst (handle s (AddJob r)) = AddJobResponse ADDED"
      unfolding fst_handle_add_job by simp
    from add_tasks_summary[OF that(4)]
    have keys: "map fst (all_tasks gj) = map t_task_id (new_tasks [] ts)" by simp
    show ?thesis unfolding resp that(5) using inv
    proof (rule added_inv_update)
      show "added_step (job_id r) (A (job_id r)) (AddJob r, AddJobResponse ADDED)
          = Some (summary (gj\<lparr>job := r\<lparr>job_spec := PyGrid [] ata\<rparr>, all_tasks_added := ata\<rparr>))"
        by (simp add: added_step_simps that(2) summary_def keys)
    next
      fix j assume "j \<noteq> job_id r"
      then show "added_step j (A j) (AddJob r, AddJobResponse ADDED) = A j"
        by (simp add: added_step_simps)
    qed
  qed
  show ?thesis
  proof (cases "job_id r = [] \<or> any_invalid (job_id r) \<or> any_invalid (job_friendly_name r)
      \<or> contains (u_grid_jobs s) (job_id r) \<or> contains (u_simple_jobs s) (job_id r)
      \<or> priority r \<le> 0")
    case True
    then have "snd (add_job s r) = s" "fst (add_job s r) \<noteq> Inr ADDED"
      by (auto simp: add_job_def)
    then show ?thesis by (rule same)
  next
    case ok: False
    show ?thesis
    proof (cases "job_spec r")
      case NoJobSpec
      with ok have "snd (add_job s r) = s" "fst (add_job s r) \<noteq> Inr ADDED"
        by (auto simp: add_job_def)
      then show ?thesis by (rule same)
    next
      case (PyCommand c)
      with ok show ?thesis by (intro simple) (auto simp: add_job_def)
    next
      case (PyFunction f)
      with ok show ?thesis by (intro simple) (auto simp: add_job_def)
    next
      case (PyGrid ts ata)
      obtain e gj where h: "u_add_tasks_to_grid_job ?g0 ts = (e, gj)"
        by (cases "u_add_tasks_to_grid_job ?g0 ts")
      show ?thesis
      proof (cases e)
        case None
        from ok have free: "\<not> contains (u_grid_jobs s) (job_id r)" by simp
        from ok PyGrid h None show ?thesis
          by (intro grid[OF _ PyGrid free h[unfolded None]]) (auto simp: add_job_def)
      next
        case (Some err)
        with ok PyGrid h have "snd (add_job s r) = s" "fst (add_job s r) \<noteq> Inr ADDED"
          by (auto simp: add_job_def)
        then show ?thesis by (rule same)
      qed
    qed
  qed
qed

lemma add_tasks_added:
  assumes inv: "added_inv s A" and fifo: "fifo_inv s H"
  shows "added_inv (snd (add_tasks_to_grid_job s k ts ata))
     (\<lambda>j. added_step j (A j) (AddTasksToGridJob k ts ata, fst (handle s (AddTasksToGridJob k ts ata))))"
proof (cases "map_of (u_grid_jobs s) k")
  case None
  with inv have a: "A k = None" by (simp add: added_inv_def)
  from None have "snd (add_tasks_to_grid_job s k ts ata) = s"
    and "\<exists>e. fst (handle s (AddTasksToGridJob k ts ata)) = Failed e"
    by (simp_all add: add_tasks_to_grid_job_def)
  then obtain e where e: "fst (handle s (AddTasksToGridJob k ts ata)) = Failed e"
    and st: "snd (add_tasks_to_grid_job s k ts ata) = s" by blast
  have "added_step j (A j) (AddTasksToGridJob k ts ata, Failed e) = A j" for j
    using a by (cases "j = k") (simp_all add: added_step_simps)
  then show ?thesis using inv unfolding e st by simp
next
  case (Some g)
  with inv have a: "A k = Some (summary g)" by (simp add: added_inv_def)
  from fifo Some have "queue_inv (H k) g" by (rule fifo_inv_lookup)
  then have nn: "list_all (\<lambda>k. 0 \<le> k) (map fst (all_tasks g))" by (simp add: queue_inv_def)
  obtain r g1 where h: "u_add_tasks_to_grid_job g ts = (r, g1)" by (cases "u_add_tasks_to_grid_job g ts")
  note sm = add_tasks_summary[OF h nn]
  show ?thesis
  proof (cases r)
    case None
    have st: "snd (add_tasks_to_grid_job s k ts ata)
        = s\<lparr>u_grid_jobs := AList.update k
             (if ata then g1\<lparr>all_tasks_added := True\<rparr> else g1) (u_grid_jobs s)\<rparr>"
      and resp: "fst (handle s (AddTasksToGridJob k ts ata)) = AddTasksResponse"
      using Some h None by (simp_all add: add_tasks_to_grid_job_def)
    show ?thesis unfolding st resp using inv
    proof (rule added_inv_update)
      show "added_step k (A k) (AddTasksToGridJob k ts ata, AddTasksResponse)
          = Some (summary (if ata then g1\<lparr>all_tasks_added := True\<rparr> else g1))"
        using sm None by (simp add: added_step_simps a summary_def)
    next
      fix j assume "j \<noteq> k"
      then show "added_step j (A j) (AddTasksToGridJob k ts ata, AddTasksResponse) = A j"
        by (simp add: added_step_simps)
    qed
  next
    case (Some e)
    have st: "snd (add_tasks_to_grid_job s k ts ata)
        = s\<lparr>u_grid_jobs := AList.update k g1 (u_grid_jobs s)\<rparr>"
      and resp: "fst (handle s (AddTasksToGridJob k ts ata)) = Failed e"
      using \<open>map_of (u_grid_jobs s) k = Some g\<close> h Some
      by (simp_all add: add_tasks_to_grid_job_def)
    show ?thesis unfolding st resp using inv
    proof (rule added_inv_update)
      show "added_step k (A k) (AddTasksToGridJob k ts ata, Failed e) = Some (summary g1)"
        using sm Some by (simp add: added_step_simps a summary_def)
    next
      fix j assume "j \<noteq> k"
      then show "added_step j (A j) (AddTasksToGridJob k ts ata, Failed e) = A j"
        by (simp add: added_step_simps)
    qed
  qed
qed

lemma handle_added:
  assumes inv: "added_inv s A" and fifo: "fifo_inv s H" and d: "job_ids_distinct s"
  shows "added_inv (snd (handle s c)) (\<lambda>j. added_step j (A j) (c, fst (handle s c)))"
proof (cases c)
  case (AddJob r)
  from inv show ?thesis unfolding AddJob snd_handle by (rule add_job_added)
next
  case (AddTasksToGridJob k ts ata)
  from inv fifo show ?thesis unfolding AddTasksToGridJob snd_handle by (rule add_tasks_added)
next
  case (UpdateJobStates js)
  have "added_inv (update_job_states s js) A"
    using _ inv by (rule added_inv_same_grid) simp
  then show ?thesis unfolding UpdateJobStates by (simp only: snd_handle added_step_simps)
next
  case (GetNextJob x)
  have "added_inv (snd (get_next_job s x)) A"
    using get_next_job_summary[OF d] inv by (rule added_inv_summary)
  then show ?thesis unfolding GetNextJob by (simp only: snd_handle added_step_simps)
next
  case (UpdateGridTaskStateAndGetNext k tid ps)
  have "added_inv (snd (update_grid_task_state_and_get_next s k tid ps)) A"
    using update_grid_task_summary inv by (rule added_inv_summary)
  then show ?thesis unfolding UpdateGridTaskStateAndGetNext
    by (simp only: snd_handle added_step_simps)
next
  case (GetSimpleJobStates ids)
  from inv show ?thesis unfolding GetSimpleJobStates by (simp only: snd_handle added_step_simps)
next
  case (GetGridTaskStates k ig)
  from inv show ?thesis unfolding GetGridTaskStates by (simp only: snd_handle added_step_simps)
qed

lemma run_added:
  "added_inv s A \<Longrightarrow> fifo_inv s H \<Longrightarrow> job_ids_distinct s \<Longrightarrow>
   added_inv (snd (run s cs)) (\<lambda>j. foldl (added_step j) (A j) (fst (run s cs)))"
proof (induction cs arbitrary: s A H)
  case Nil
  then show ?case by simp
next
  case (Cons c cs)
  let ?s = "snd (handle s c)"
  let ?A = "\<lambda>j. added_step j (A j) (c, fst (handle s c))"
  let ?H = "\<lambda>j. H j @ dispatched_one j (c, fst (handle s c))"
  from Cons.prems have "added_inv ?s ?A" by (rule handle_added)
  moreover from Cons.prems(2,3) have "fifo_inv ?s ?H" by (rule handle_fifo)
  moreover from Cons.prems(3) have "job_ids_distinct ?s" by (rule handle_job_ids_distinct)
  ultimately have "added_inv (snd (run ?s cs)) (\<lambda>j. foldl (added_step j) (?A j) (fst (run ?s cs)))"
    by (rule Cons.IH)
  then show ?case by (simp add: snd_run_Cons fst_run_Cons del: run.simps(2) handle.simps)
qed


lemma example_late_run:
  "run init_Coordinator example_late_calls
     = ([(AddJob example_open_grid_job, AddJobResponse ADDED),
         (UpdateGridTaskStateAndGetNext ''g2'' (- 1) (ProcessState_of DEFAULT),
          GridTaskResponse \<lparr>task_id = 0, pickled_function_arguments = ''a0''\<rparr>),
         (AddTasksToGridJob ''g2''
            [\<lparr>task_id = 1, pickled_function_arguments = ''a1''\<rparr>,
             \<lparr>task_id = 0, pickled_function_arguments = ''again''\<rparr>,
             \<lparr>task_id = 3, pickled_function_arguments = ''a3''\<rparr>] False,
          AddTasksResponse),
         (AddTasksToGridJob ''g2''
            [\<lparr>task_id = 4, pickled_function_arguments = ''a4''\<rparr>,
             \<lparr>task_id = - 2, pickled_function_arguments = ''bad''\<rparr>,
             \<lparr>task_id = 5, pickled_function_arguments = ''a5''\<rparr>] True,
          Failed (ValueError ''task_ids cannot be negative''))],
        \<lparr>u_grid_jobs = [(''g2'', example_late_state)], u_simple_jobs = []\<rparr>)"
  by (simp add: example_late_calls_def example_late_state_def add_job_def
      example_open_grid_job_def init_Coordinator_def contains_def valid_example_ids
      mk_task_def Let_def update_grid_task_state_and_get_next_def add_tasks_to_grid_job_def)

lemma example_late_added:
  "tasks_added ''g2'' (log_of example_late_calls) = [0, 1, 3, 4]"
  by (simp add: log_of_def example_late_run tasks_added_def added_state_def added_step_simps
      example_open_grid_job_def mk_task_def)

lemma example_late_dispatched:
  "dispatched ''g2'' (log_of example_late_calls) = [0]"
  by (simp add: log_of_def example_late_run dispatched_def dispatched_one_def)


lemma added_step_reports:
  "map fst log = map (report_call j) reports \<Longrightarrow> foldl (added_step j') a log = a"
proof (induction log arbitrary: reports)
  case Nil
  then show ?case by simp
next
  case (Cons cr log)
  then obtain r rest where r: "reports = r # rest" by (cases reports) auto
  with Cons.prems have "fst cr = report_call j r" "map fst log = map (report_call j) rest"
    by simp_all
  then have "added_step j' a cr = a" "foldl (added_step j') a log = a"
    using Cons.IH[of rest] by (cases cr; simp add: report_call_def added_step_simps)+
  then show ?case by simp
qed

lemma added_state_run:
  "added_inv (state_after cs) (\<lambda>j. added_state j (log_of cs))"
proof -
  have "added_inv init_Coordinator (\<lambda>j. None)"
    by (simp add: added_inv_def init_Coordinator_def)
  moreover have "fifo_inv init_Coordinator (\<lambda>j. [])"
    by (simp add: fifo_inv_def init_Coordinator_def)
  moreover have "job_ids_distinct init_Coordinator"
    by (simp add: job_ids_distinct_def grid_job_ids_def simple_job_ids_def init_Coordinator_def)
  ultimately show ?thesis
    unfolding state_after_def log_of_def added_state_def by (rule run_added)
qed

lemma tasks_added_keys:
  "map_of (u_grid_jobs (state_after cs)) j = Some g \<Longrightarrow>
   tasks_added j (log_of cs) = map fst (all_tasks g)"
  using added_state_run[of cs] by (simp add: added_inv_def tasks_added_def summary_def)

text \<open>
  Claim C3. Take any run of the coordinator and a grid job \<open>j\<close> of the state it reaches.
  The tasks the calls of the run have added to \<open>j\<close> (those of the \<^verbatim>\<open>AddJob\<close> that created
  it, then those of each later \<^verbatim>\<open>AddTasksToGridJob\<close>, in the order of the calls and of each
  batch) are distinct, and they are the keys of \<^verbatim>\<open>all_tasks\<close>. The task ids handed out so
  far, followed by the ids still in the unassigned queue, are exactly that list: tasks
  leave in the order in which they were added, the initial tasks first and late additions
  after them. If workers go on to call \<^verbatim>\<open>UpdateGridTaskStateAndGetNext\<close> once more than
  there are queued tasks (each call reporting nothing or the state of a task of the job),
  which adds no task, then over the whole run every task ever added has been returned
  exactly once, in the order of addition, and the last call, which finds the queue empty,
  returns \<open>task_id = -1\<close>. Any call for a job whose queue is empty returns \<open>task_id = -1\<close>.
\<close>

theorem grid_tasks_dispatched_fifo:
  assumes job: "map_of (u_grid_jobs (state_after cs)) j = Some g"
    and len: "length reports = Suc (length (unassigned_tasks g))"
    and ok: "list_all (report_ok g) reports"
  shows "dispatched j (log_of (cs @ map (report_call j) reports)) = tasks_added j (log_of cs)
    \<and> tasks_added j (log_of (cs @ map (report_call j) reports)) = tasks_added j (log_of cs)
    \<and> distinct (tasks_added j (log_of cs))
    \<and> dispatched j (log_of cs) @ map t_task_id (unassigned_tasks g) = tasks_added j (log_of cs)
    \<and> map fst (all_tasks g) = tasks_added j (log_of cs)
    \<and> snd (last (log_of (cs @ map (report_call j) reports))) = GridTaskResponse no_task
    \<and> (unassigned_tasks g = [] \<longrightarrow>
         fst (update_grid_task_state_and_get_next (state_after cs) j tid ps) = no_task)"
proof -
  let ?drain = "fst (run (state_after cs) (map (report_call j) reports))"
  have log: "log_of (cs @ map (report_call j) reports) = log_of cs @ ?drain"
    by (simp add: log_of_def state_after_def run_append)
  have calls: "map fst ?drain = map (report_call j) reports" by (rule fst_run_calls)
  have keys: "tasks_added j (log_of cs) = map fst (all_tasks g)"
    using job by (rule tasks_added_keys)
  have "added_state j (log_of cs @ ?drain) = added_state j (log_of cs)"
    using added_step_reports[OF calls] by (simp add: added_state_def)
  then have same: "tasks_added j (log_of (cs @ map (report_call j) reports))
      = tasks_added j (log_of cs)"
    by (simp add: log tasks_added_def)
  from drained_queue[OF job len ok, of tid ps] same show ?thesis
    unfolding keys by simp
qed

text \<open>
  The theorem at the run with late additions: task 0 has been handed out before the
  batches arrive; the calls have added 0, 1, 3 and 4 (task 0 of the first batch is
  known, the second batch fails after task 4); four more calls hand out 1, 3 and 4 and
  then \<open>-1\<close>, so over the whole run the tasks come back as 0, 1, 3, 4. And at the job
  \<open>g1\<close> after its tasks 0, 1, 2 have been handed out: the queue is empty and a further
  call gets \<open>-1\<close>.
\<close>

theorem grid_tasks_dispatched_fifo_witness:
  "map_of (u_grid_jobs (state_after example_late_calls)) ''g2'' = Some example_late_state
   \<and> length example_late_reports = Suc (length (unassigned_tasks example_late_state))
   \<and> list_all (report_ok example_late_state) example_late_reports
   \<and> tasks_added ''g2'' (log_of example_late_calls) = [0, 1, 3, 4]
   \<and> dispatched ''g2'' (log_of example_late_calls) = [0]
   \<and> dispatched ''g2''
        (log_of (example_late_calls @ map (report_call ''g2'') example_late_reports))
       = [0, 1, 3, 4]
   \<and> snd (last (log_of (example_late_calls @ map (report_call ''g2'') example_late_reports)))
       = GridTaskResponse no_task
   \<and> tasks_added ''g1''
        (log_of (AddJob example_grid_job # map (report_call ''g1'') example_reports))
       = [0, 1, 2]
   \<and> dispatched ''g1''
        (log_of (AddJob example_grid_job # map (report_call ''g1'') example_reports))
       = [0, 1, 2]
   \<and> fst (update_grid_task_state_and_get_next
         (state_after (AddJob example_grid_job # map (report_call ''g1'') example_reports))
         ''g1'' 2 (ProcessState_of SUCCEEDED)) = no_task"
proof -
  have h1: "map_of (u_grid_jobs (state_after example_late_calls)) ''g2''
      = Some example_late_state"
    by (simp add: state_after_def example_late_run)
  have h2: "length example_late_reports = Suc (length (unassigned_tasks example_late_state))"
    by (simp add: example_late_reports_def example_late_state_def)
  have h3: "list_all (report_ok example_late_state) example_late_reports"
    by (simp add: example_late_reports_def example_late_state_def report_ok_def contains_def)
  from grid_tasks_dispatched_fifo[OF h1 h2 h3] example_late_added
  have late: "dispatched ''g2''
        (log_of (example_late_calls @ map (report_call ''g2'') example_late_reports))
       = [0, 1, 3, 4]
     \<and> snd (last (log_of (example_late_calls @ map (report_call ''g2'') example_late_reports)))
       = GridTaskResponse no_task"
    by simp
  let ?cs = "AddJob example_grid_job # map (report_call ''g1'') example_reports"
  let ?g = "example_grid_state\<lparr>
            all_tasks := [(0, mk_task (example_tasks ! 0)\<lparr>t_state := ProcessState_of SUCCEEDED\<rparr>),
                          (1, mk_task (example_tasks ! 1)\<lparr>t_state := ProcessState_of PYTHON_EXCEPTION\<rparr>),
                          (2, mk_task (example_tasks ! 2)\<lparr>t_state := ProcessState_of SUCCEEDED\<rparr>)],
            unassigned_tasks := []\<rparr>"
  have k1: "map_of (u_grid_jobs (state_after ?cs)) ''g1'' = Some ?g"
    by (simp only: example_clamped) simp
  have k2: "length [(- 1 :: int, ProcessState_of DEFAULT)] = Suc (length (unassigned_tasks ?g))"
    by simp
  have k3: "list_all (report_ok ?g) [(- 1, ProcessState_of DEFAULT)]"
    by (simp add: report_ok_def)
  have k4: "unassigned_tasks ?g = []" by simp
  have k5: "map fst (all_tasks ?g) = [0, 1, 2]" by simp
  from grid_tasks_dispatched_fifo[OF k1 k2 k3, of 2 "ProcessState_of SUCCEEDED"] k4 k5
  have drained: "tasks_added ''g1'' (log_of ?cs) = [0, 1, 2]
     \<and> dispatched ''g1'' (log_of ?cs) = [0, 1, 2]
     \<and> fst (update_grid_task_state_and_get_next (state_after ?cs) ''g1'' 2
          (ProcessState_of SUCCEEDED)) = no_task"
    by simp
  from h1 h2 h3 example_late_added example_late_dispatched late drained
  show ?thesis by blast
qed

subsection \<open>Grid jobs in the simple-job query\<close>

lemma add_job_added_grid:
  "fst (add_job s r) = Inr ADDED \<Longrightarrow> job_spec r = PyGrid ts ata \<Longrightarrow>
   job_id r \<in> set (grid_job_ids (snd (add_job s r)))"
  by (auto simp: add_job_def grid_job_ids_def dom_update
      split: if_splits prod.splits option.splits)

lemma added_grid_job_kept:
  "(AddJob r, AddJobResponse ADDED) \<in> set (fst (run s cs)) \<Longrightarrow> job_spec r = PyGrid ts ata \<Longrightarrow>
   job_id r \<in> set (grid_job_ids (snd (run s cs)))"
proof (induction cs arbitrary: s)
  case Nil
  then show ?case by simp
next
  case (Cons c cs)
  from Cons.prems(1) consider
      (head) "c = AddJob r" "fst (handle s c) = AddJobResponse ADDED"
    | (tail) "(AddJob r, AddJobResponse ADDED) \<in> set (fst (run (snd (handle s c)) cs))"
    by (auto simp: fst_run_Cons simp del: run.simps(2) handle.simps)
  then show ?case
  proof cases
    case head
    then have "fst (add_job s r) = Inr ADDED" by (simp only: fst_handle_add_job)
    then have "job_id r \<in> set (grid_job_ids (snd (add_job s r)))"
      using Cons.prems(2) by (rule add_job_added_grid)
    then have "job_id r \<in> set (grid_job_ids (snd (handle s c)))"
      by (simp only: head snd_handle)
    then have "job_id r \<in> set (grid_job_ids (snd (run (snd (handle s c)) cs)))"
      by (rule run_grid_keys_mono)
    then show ?thesis by (simp only: snd_run_Cons)
  next
    case tail
    then have "job_id r \<in> set (grid_job_ids (snd (run (snd (handle s c)) cs)))"
      using Cons.prems(2) by (rule Cons.IH)
    then show ?thesis by (simp only: snd_run_Cons)
  qed
qed

text \<open>
  Claim C10. If a run contains an \<^verbatim>\<open>AddJob\<close> of a grid job that was answered \<open>ADDED\<close>,
  then afterwards \<^verbatim>\<open>get_simple_job_states\<close> reports \<open>UNKNOWN\<close> at every position of a
  request that asks for that job id. The answer is the one given for a job id that is in
  neither map, and it does not depend on the grid-jobs map at all.
\<close>

theorem grid_job_reported_unknown:
  assumes added: "(AddJob request, AddJobResponse ADDED) \<in> set (log_of cs)"
    and grid: "job_spec request = PyGrid tasks ata"
    and pos: "i < length ids" "ids ! i = job_id request"
  shows "get_simple_job_states (state_after cs) ids ! i = ProcessState_of UNKNOWN
    \<and> (\<forall>never. \<not> contains (u_grid_jobs (state_after cs)) never
           \<and> \<not> contains (u_simple_jobs (state_after cs)) never \<longrightarrow>
         get_simple_job_states (state_after cs) [never]
           = get_simple_job_states (state_after cs) [job_id request])
    \<and> (\<forall>other. get_simple_job_states (state_after cs\<lparr>u_grid_jobs := other\<rparr>) ids
           = get_simple_job_states (state_after cs) ids)"
proof -
  have "job_ids_distinct init_Coordinator"
    by (simp add: job_ids_distinct_def grid_job_ids_def simple_job_ids_def init_Coordinator_def)
  then have "job_ids_distinct (state_after cs)"
    unfolding state_after_def by (rule run_job_ids_distinct)
  moreover from added grid have "job_id request \<in> set (grid_job_ids (state_after cs))"
    unfolding state_after_def log_of_def by (rule added_grid_job_kept)
  ultimately have "job_id request \<notin> set (simple_job_ids (state_after cs))"
    by (auto simp: job_ids_distinct_def)
  then have none: "map_of (u_simple_jobs (state_after cs)) (job_id request) = None"
    by (simp add: simple_job_ids_def map_of_eq_None_iff)
  with pos show ?thesis
    by (simp add: get_simple_job_states_def contains_def)
qed

text \<open>
  The theorem at a run that adds the simple job \<open>j1\<close> and the grid job \<open>g1\<close>.
\<close>

theorem grid_job_reported_unknown_witness:
  "(AddJob example_grid_job, AddJobResponse ADDED)
     \<in> set (log_of [AddJob example_simple_job, AddJob example_grid_job])
   \<and> job_spec example_grid_job = PyGrid example_tasks True
   \<and> get_simple_job_states (state_after [AddJob example_simple_job, AddJob example_grid_job])
        [''j1'', ''g1'', ''nobody''] ! 1 = ProcessState_of UNKNOWN
   \<and> get_simple_job_states (state_after [AddJob example_simple_job, AddJob example_grid_job])
        [''nobody'']
       = get_simple_job_states (state_after [AddJob example_simple_job, AddJob example_grid_job])
           [job_id example_grid_job]"
proof -
  let ?cs = "[AddJob example_simple_job, AddJob example_grid_job]"
  have h1: "(AddJob example_grid_job, AddJobResponse ADDED) \<in> set (log_of ?cs)"
    by (simp add: log_of_def add_job_def example_grid_job_def example_simple_job_def
        example_tasks_def init_Coordinator_def contains_def valid_example_ids Let_def)
  have h2: "job_spec example_grid_job = PyGrid example_tasks True"
    by (simp add: example_grid_job_def)
  have h3: "(1::nat) < length [''j1'', ''g1'', ''nobody'']"
    "[''j1'', ''g1'', ''nobody''] ! 1 = job_id example_grid_job"
    by (simp_all add: example_grid_job_def)
  have h4: "\<not> contains (u_grid_jobs (state_after ?cs)) ''nobody''
      \<and> \<not> contains (u_simple_jobs (state_after ?cs)) ''nobody''"
    by (simp add: state_after_def add_job_def example_grid_job_def example_simple_job_def
        example_tasks_def init_Coordinator_def contains_def valid_example_ids Let_def)
  from grid_job_reported_unknown[OF h1 h2 h3] h1 h2 h4 show ?thesis by blast
qed

section \<open>Properties of the reader\<close>

subsection \<open>Row filters\<close>

lemma str_int_1: "str_int 1 = ''1''"
  by (simp add: str_int_def)

lemma where_clause_is_first_filter:
  "row_args (u_ops t) = first # rest \<Longrightarrow> where_clause_of t = u_construct_where_clause first t"
  by (simp add: where_clause_of_def Let_def)

text \<open>
  Claim C1. The claim says that with two or more row filters the \<^verbatim>\<open>where_clause\<close> is the
  parenthesized conjunction of all of them. \<^verbatim>\<open>_construct_sql\<close> builds that conjunction in
  \<^verbatim>\<open>curr_filter_column\<close> and then renders \<^verbatim>\<open>row_args[0]\<close>, so the clause is the first filter
  alone (lemma \<open>where_clause_is_first_filter\<close>). At the table filtered by \<open>a = 1\<close> and then
  by \<open>b > 'x'\<close>: the two filters are both in the operations, the generated clause is the
  rendering of \<open>a = 1\<close>, and the rendering of the conjunction, which the claim asks for,
  is a different text.
\<close>

theorem two_row_filters_keep_only_the_first:
  "row_args (u_ops example_two_filters) = [example_filter_a, example_filter_b]
   \<and> u_construct_sql example_two_filters
       = Inr (''SELECT [!!__to_be_replaced_table_name__!!].*'',
              ''([!!__to_be_replaced_table_name__!!].'' @ dquote @ ''a'' @ dquote @ '' = 1)'')
   \<and> u_construct_where_clause (bool_and example_filter_a example_filter_b) example_two_filters
       = Inr (''(([!!__to_be_replaced_table_name__!!].'' @ dquote @ ''a'' @ dquote @ '' = 1) AND ''
              @ ''([!!__to_be_replaced_table_name__!!].'' @ dquote @ ''b'' @ dquote @ '' > ''
              @ [CHR 0x27] @ ''x'' @ [CHR 0x27] @ ''))'')"
  by (simp add: example_two_filters_def example_filter_a_def example_filter_b_def
      example_table_def getitem_rows_def getitem_column_def column_eq_def column_gt_def
      u_construct_sql_def select_clause_of_def where_clause_of_def Let_def bool_and_def
      u_table_name_placeholder_def str_int_1)

subsection \<open>Negation\<close>

lemma new_op_table: "map new_op comparators = map Some inverse_comparators"
  by (simp add: comparators_def inverse_comparators_def new_op_def)

lemma new_op_known: "op \<in> set comparators \<Longrightarrow> \<exists>op'. new_op op = Some op'"
  by (auto simp: comparators_def new_op_def)

lemma new_op_involution: "new_op op = Some op' \<Longrightarrow> new_op op' = Some op"
  by (auto simp: new_op_def split: if_splits)

lemma new_op_comparator: "new_op op = Some op' \<Longrightarrow> op \<in> set comparators \<and> op' \<in> set comparators"
  by (auto simp: new_op_def comparators_def split: if_splits)

lemma interpret_as_bool_leaf:
  "u_interpret_as_bool (MdbColumn v c) = MdbComputedBoolColumnOpArg v c ''='' (Literal (LitStr ''TRUE''))"
  by (simp add: u_interpret_as_bool_def)

lemma invert_operand:
  "invert (MdbColumnOperand (MdbColumn v c))
     = Inr (MdbComputedBoolColumnOpArg v c ''!='' (Literal (LitStr ''TRUE'')))"
  by (simp add: interpret_as_bool_leaf new_op_def)

lemma invert_interpreted: "invert p = Inr q \<Longrightarrow> invert q = Inr (interpreted p)"
proof (induction p arbitrary: q)
  case (MdbComputedBoolColumnOpArg v c op arg)
  then show ?case by (auto split: option.splits dest: new_op_involution)
next
  case (MdbComputedBoolColumnOpColumn a b op)
  from MdbComputedBoolColumnOpColumn.prems
  obtain a' b' where ab: "invert a = Inr a'" "invert b = Inr b'"
    and q: "(op = ''AND'' \<and> q = MdbComputedBoolColumnOpColumn a' b' ''OR'')
          \<or> (op = ''OR'' \<and> q = MdbComputedBoolColumnOpColumn a' b' ''AND'')"
    by (auto split: if_splits sum.splits)
  from ab have "invert a' = Inr (interpreted a)" "invert b' = Inr (interpreted b)"
    by (auto dest: MdbComputedBoolColumnOpColumn.IH)
  with q show ?case by auto
next
  case (MdbColumnOperand col)
  obtain v c where col: "col = MdbColumn v c" by (cases col)
  from MdbColumnOperand show ?case
    unfolding col by (auto simp: interpret_as_bool_leaf new_op_def)
qed

lemma interpreted_computed: "computed_throughout p \<Longrightarrow> interpreted p = p"
  by (induction p) auto

lemma computed_interpreted: "computed_throughout (interpreted p)"
proof (induction p)
  case (MdbColumnOperand col)
  then show ?case by (cases col) (simp add: interpret_as_bool_leaf)
qed auto

lemma invert_computed: "invert p = Inr q \<Longrightarrow> computed_throughout q"
proof (induction p arbitrary: q)
  case (MdbComputedBoolColumnOpArg v c op arg)
  then show ?case by (auto split: option.splits)
next
  case (MdbComputedBoolColumnOpColumn a b op)
  then show ?case by (fastforce split: if_splits sum.splits)
next
  case (MdbColumnOperand col)
  obtain v c where col: "col = MdbColumn v c" by (cases col)
  from MdbColumnOperand show ?case unfolding col by (auto simp: interpret_as_bool_leaf new_op_def)
qed

lemma invert_involution:
  "computed_throughout p \<Longrightarrow> invert p = Inr q \<Longrightarrow> invert q = Inr p"
  using invert_interpreted[of p q] interpreted_computed[of p] by simp

lemma invert_total: "well_formed p \<Longrightarrow> \<exists>q. invert p = Inr q"
proof (induction p)
  case (MdbComputedBoolColumnOpArg v c op arg)
  then show ?case by (auto dest: new_op_known)
next
  case (MdbComputedBoolColumnOpColumn a b op)
  then show ?case by auto
next
  case (MdbColumnOperand col)
  then show ?case by (cases col) (simp add: interpret_as_bool_leaf new_op_def)
qed

lemma invert_well_formed: "invert p = Inr q \<Longrightarrow> well_formed p \<and> well_formed q"
proof (induction p arbitrary: q)
  case (MdbComputedBoolColumnOpArg v c op arg)
  then show ?case by (auto split: option.splits dest: new_op_comparator)
next
  case (MdbComputedBoolColumnOpColumn a b op)
  then show ?case by (fastforce split: if_splits sum.splits)
next
  case (MdbColumnOperand col)
  obtain v c where col: "col = MdbColumn v c" by (cases col)
  from MdbColumnOperand show ?case
    unfolding col by (auto simp: interpret_as_bool_leaf new_op_def comparators_def)
qed

lemma builder_well_formed:
  "well_formed (column_eq col x)" "well_formed (column_ne col x)"
  "well_formed (column_gt col x)" "well_formed (column_lt col x)"
  "well_formed (column_ge col x)" "well_formed (column_le col x)"
  "well_formed (between col x y)" "well_formed (isin col xs)"
  "well_formed (u_interpret_as_bool col)" "well_formed (MdbColumnOperand col)"
  "well_formed a \<Longrightarrow> well_formed b \<Longrightarrow> well_formed (bool_and a b)"
  "well_formed a \<Longrightarrow> well_formed b \<Longrightarrow> well_formed (bool_or a b)"
  "well_formed b \<Longrightarrow> well_formed (column_and col b)"
  "well_formed b \<Longrightarrow> well_formed (column_or col b)"
  by (cases col; simp add: column_eq_def column_ne_def column_gt_def column_lt_def
      column_ge_def column_le_def between_def isin_def u_interpret_as_bool_def bool_and_def
      bool_or_def column_and_def column_or_def comparators_def)+

lemma where_clause_interpreted:
  "u_construct_where_clause (interpreted p) t = u_construct_where_clause p t"
proof (induction p)
  case (MdbComputedBoolColumnOpArg v c op arg)
  show ?case by (simp only: interpreted.simps)
next
  case (MdbComputedBoolColumnOpColumn a b op)
  then show ?case by (simp only: interpreted.simps u_construct_where_clause.simps)
next
  case (MdbColumnOperand col)
  show ?case by (simp only: interpreted.simps u_construct_where_clause.simps)
qed

text \<open>
  Claim C7, as amended. The claim says that double negation yields a column equal to \<open>p\<close>
  for every \<open>p\<close>. That holds for every \<open>p\<close> that is computed throughout, and not when an
  operand of \<^verbatim>\<open>&\<close> or \<^verbatim>\<open>|\<close> is a plain column: \<^verbatim>\<open>MdbColumn.__invert__\<close> negates the
  interpretation \<^verbatim>\<open>column = 'TRUE'\<close> of the column, so the second negation returns that
  comparison in place of the column (the counterexample below). What holds: whenever
  \<^verbatim>\<open>~p\<close> returns a column \<open>q\<close>, \<open>q\<close> is computed throughout and \<^verbatim>\<open>~q\<close> returns \<open>p\<close> with every
  plain operand replaced by its interpretation as a bool; that column is \<open>p\<close> itself when
  \<open>p\<close> is computed throughout, so negation is an involution on those columns, and in every
  case it renders the same where clause as \<open>p\<close>. \<^verbatim>\<open>~p\<close> does return a column for every \<open>p\<close>
  whose comparators are among the ten of the table and whose connectives are \<^verbatim>\<open>AND\<close> and
  \<^verbatim>\<open>OR\<close>. Negation obeys De Morgan's laws: the negation of \<open>a AND b\<close> is the \<^verbatim>\<open>OR\<close> of the
  negated children, and dually. On a leaf it replaces the comparator by its inverse (\<open>=\<close>
  and \<open>!=\<close>, \<open>>\<close> and \<open><=\<close>, \<open><\<close> and \<open>>=\<close>, \<open>BETWEEN\<close> and \<open>NOT BETWEEN\<close>, \<open>IN\<close> and
  \<open>NOT IN\<close>) and keeps the table version, the column and the arguments; on a plain column
  it returns \<^verbatim>\<open>column != 'TRUE'\<close>.
\<close>

theorem negation_involution_de_morgan:
  "(invert p = Inr q \<longrightarrow> invert q = Inr (interpreted p) \<and> computed_throughout q)
   \<and> (computed_throughout p \<longrightarrow> interpreted p = p)
   \<and> (computed_throughout p \<and> invert p = Inr q \<longrightarrow> invert q = Inr p)
   \<and> (well_formed p \<longrightarrow> (\<exists>q. invert p = Inr q \<and> invert q = Inr (interpreted p)))
   \<and> u_construct_where_clause (interpreted p) t = u_construct_where_clause p t
   \<and> (invert a = Inr a' \<and> invert b = Inr b' \<longrightarrow>
        invert (bool_and a b) = Inr (bool_or a' b')
        \<and> invert (bool_or a b) = Inr (bool_and a' b')
        \<and> invert (column_and (MdbColumn v c) b)
            = Inr (bool_or (MdbComputedBoolColumnOpArg v c ''!='' (Literal (LitStr ''TRUE''))) b')
        \<and> invert (column_or (MdbColumn v c) b)
            = Inr (bool_and (MdbComputedBoolColumnOpArg v c ''!='' (Literal (LitStr ''TRUE''))) b'))
   \<and> map (\<lambda>op. invert (MdbComputedBoolColumnOpArg v c op arg)) comparators
       = map (\<lambda>op. Inr (MdbComputedBoolColumnOpArg v c op arg)) inverse_comparators
   \<and> invert (MdbColumnOperand (MdbColumn v c))
       = Inr (MdbComputedBoolColumnOpArg v c ''!='' (Literal (LitStr ''TRUE'')))
   \<and> column_invert (MdbColumn v c)
       = Inr (MdbComputedBoolColumnOpArg v c ''!='' (Literal (LitStr ''TRUE'')))"
proof -
  have leaf: "map (\<lambda>op. invert (MdbComputedBoolColumnOpArg v c op arg)) comparators
       = map (\<lambda>op. Inr (MdbComputedBoolColumnOpArg v c op arg)) inverse_comparators"
    by (simp add: comparators_def inverse_comparators_def new_op_def)
  have total: "well_formed p \<longrightarrow> (\<exists>q. invert p = Inr q \<and> invert q = Inr (interpreted p))"
    using invert_total[of p] invert_interpreted[of p] by blast
  have twice: "invert p = Inr q \<longrightarrow> invert q = Inr (interpreted p) \<and> computed_throughout q"
    using invert_interpreted[of p q] invert_computed[of p q] by blast
  have same: "computed_throughout p \<longrightarrow> interpreted p = p"
    using interpreted_computed[of p] by blast
  have inv: "computed_throughout p \<and> invert p = Inr q \<longrightarrow> invert q = Inr p"
    using invert_involution[of p q] by blast
  have plain: "invert (MdbColumnOperand (MdbColumn v c))
       = Inr (MdbComputedBoolColumnOpArg v c ''!='' (Literal (LitStr ''TRUE'')))"
    by (rule invert_operand)
  have col: "column_invert (MdbColumn v c)
       = Inr (MdbComputedBoolColumnOpArg v c ''!='' (Literal (LitStr ''TRUE'')))"
    by (simp add: column_invert_def interpret_as_bool_leaf new_op_def)
  have morgan: "invert a = Inr a' \<and> invert b = Inr b' \<longrightarrow>
        invert (bool_and a b) = Inr (bool_or a' b')
        \<and> invert (bool_or a b) = Inr (bool_and a' b')
        \<and> invert (column_and (MdbColumn v c) b)
            = Inr (bool_or (MdbComputedBoolColumnOpArg v c ''!='' (Literal (LitStr ''TRUE''))) b')
        \<and> invert (column_or (MdbColumn v c) b)
            = Inr (bool_and (MdbComputedBoolColumnOpArg v c ''!='' (Literal (LitStr ''TRUE''))) b')"
    by (simp add: bool_and_def bool_or_def column_and_def column_or_def
        interpret_as_bool_leaf new_op_def)
  from leaf total twice same inv plain col morgan where_clause_interpreted[of p t]
  show ?thesis by blast
qed

text \<open>
  The theorem at \<open>(a = 1) AND (c BETWEEN 1 AND 5)\<close>, which is computed throughout: its
  negation is \<open>(a != 1) OR (c NOT BETWEEN 1 AND 5)\<close>, whose negation is the column itself.
  And at \<^verbatim>\<open>(t['a'] == 1) & t['flag']\<close>, which is not: the negation of its negation is
  \<open>(a = 1) AND (flag = 'TRUE')\<close>, and both render the same where clause.
\<close>

theorem negation_involution_de_morgan_witness:
  "invert (bool_and example_filter_a (between (getitem_column example_table ''c'') (LitInt 1) (LitInt 5)))
     = Inr (bool_or (column_ne (getitem_column example_table ''a'') (LitInt 1))
              (MdbComputedBoolColumnOpArg 1 ''c'' ''NOT BETWEEN'' (Literals [LitInt 1, LitInt 5])))
   \<and> invert (bool_or (column_ne (getitem_column example_table ''a'') (LitInt 1))
              (MdbComputedBoolColumnOpArg 1 ''c'' ''NOT BETWEEN'' (Literals [LitInt 1, LitInt 5])))
     = Inr (bool_and example_filter_a (between (getitem_column example_table ''c'') (LitInt 1) (LitInt 5)))
   \<and> well_formed (bool_and example_filter_a (between (getitem_column example_table ''c'') (LitInt 1) (LitInt 5)))
   \<and> computed_throughout (bool_and example_filter_a (between (getitem_column example_table ''c'') (LitInt 1) (LitInt 5)))
   \<and> well_formed example_filter_flag
   \<and> invert example_filter_flag
       = Inr (bool_or (column_ne (getitem_column example_table ''a'') (LitInt 1))
                (column_ne (getitem_column example_table ''flag'') (LitStr ''TRUE'')))
   \<and> invert (bool_or (column_ne (getitem_column example_table ''a'') (LitInt 1))
                (column_ne (getitem_column example_table ''flag'') (LitStr ''TRUE'')))
       = Inr (interpreted example_filter_flag)
   \<and> interpreted example_filter_flag
       = bool_and example_filter_a (column_eq (getitem_column example_table ''flag'') (LitStr ''TRUE''))
   \<and> u_construct_where_clause (interpreted example_filter_flag) example_table
       = u_construct_where_clause example_filter_flag example_table
   \<and> u_construct_where_clause example_filter_flag example_table
       = Inr (''(([!!__to_be_replaced_table_name__!!].'' @ dquote @ ''a'' @ dquote @ '' = 1) AND ''
              @ ''([!!__to_be_replaced_table_name__!!].'' @ dquote @ ''flag'' @ dquote @ '' = ''
              @ [CHR 0x27] @ ''TRUE'' @ [CHR 0x27] @ ''))'')
   \<and> invert example_filter_a = Inr (column_ne (getitem_column example_table ''a'') (LitInt 1))
   \<and> invert (MdbColumnOperand (getitem_column example_table ''flag''))
       = Inr (column_ne (getitem_column example_table ''flag'') (LitStr ''TRUE''))
   \<and> invert (bool_or example_filter_a (MdbColumnOperand (getitem_column example_table ''flag'')))
       = Inr (bool_and (column_ne (getitem_column example_table ''a'') (LitInt 1))
                (column_ne (getitem_column example_table ''flag'') (LitStr ''TRUE'')))
   \<and> invert (column_or (MdbColumn 1 ''b'') (MdbColumnOperand (getitem_column example_table ''flag'')))
       = Inr (bool_and (MdbComputedBoolColumnOpArg 1 ''b'' ''!='' (Literal (LitStr ''TRUE'')))
                (column_ne (getitem_column example_table ''flag'') (LitStr ''TRUE'')))"
proof -
  let ?p = "bool_and example_filter_a (between (getitem_column example_table ''c'') (LitInt 1) (LitInt 5))"
  let ?q = "bool_or (column_ne (getitem_column example_table ''a'') (LitInt 1))
              (MdbComputedBoolColumnOpArg 1 ''c'' ''NOT BETWEEN'' (Literals [LitInt 1, LitInt 5]))"
  let ?r = "bool_or (column_ne (getitem_column example_table ''a'') (LitInt 1))
              (column_ne (getitem_column example_table ''flag'') (LitStr ''TRUE''))"
  have h: "invert ?p = Inr ?q"
    by (simp add: bool_and_def bool_or_def example_filter_a_def between_def column_eq_def
        column_ne_def getitem_column_def example_table_def new_op_def)
  have wf: "well_formed ?p"
    by (simp add: bool_and_def example_filter_a_def between_def column_eq_def
        getitem_column_def comparators_def)
  have ct: "computed_throughout ?p"
    by (simp add: bool_and_def example_filter_a_def between_def column_eq_def
        getitem_column_def)
  have wf': "well_formed example_filter_flag"
    by (simp add: example_filter_flag_def bool_and_def example_filter_a_def column_eq_def
        getitem_column_def comparators_def)
  have h': "invert example_filter_flag = Inr ?r"
    by (simp add: example_filter_flag_def example_filter_a_def bool_and_def bool_or_def
        column_eq_def column_ne_def getitem_column_def example_table_def
        interpret_as_bool_leaf new_op_def)
  have i: "interpreted example_filter_flag
      = bool_and example_filter_a (column_eq (getitem_column example_table ''flag'') (LitStr ''TRUE''))"
    by (simp add: example_filter_flag_def example_filter_a_def bool_and_def column_eq_def
        getitem_column_def example_table_def interpret_as_bool_leaf)
  have w: "u_construct_where_clause example_filter_flag example_table
       = Inr (''(([!!__to_be_replaced_table_name__!!].'' @ dquote @ ''a'' @ dquote @ '' = 1) AND ''
              @ ''([!!__to_be_replaced_table_name__!!].'' @ dquote @ ''flag'' @ dquote @ '' = ''
              @ [CHR 0x27] @ ''TRUE'' @ [CHR 0x27] @ ''))'')"
    by (simp add: example_filter_flag_def example_filter_a_def bool_and_def column_eq_def
        getitem_column_def example_table_def interpret_as_bool_leaf
        u_table_name_placeholder_def str_int_1)
  from negation_involution_de_morgan[of ?p ?q] h wf ct
  have one: "invert ?q = Inr ?p" by simp
  from negation_involution_de_morgan[of example_filter_flag ?r example_table] h'
  have two: "invert ?r = Inr (interpreted example_filter_flag)
      \<and> u_construct_where_clause (interpreted example_filter_flag) example_table
          = u_construct_where_clause example_filter_flag example_table" by simp
  have ha: "invert example_filter_a = Inr (column_ne (getitem_column example_table ''a'') (LitInt 1))"
    by (simp add: example_filter_a_def column_eq_def column_ne_def getitem_column_def new_op_def)
  have hb: "invert (MdbColumnOperand (getitem_column example_table ''flag''))
      = Inr (column_ne (getitem_column example_table ''flag'') (LitStr ''TRUE''))"
    by (simp add: column_ne_def getitem_column_def example_table_def interpret_as_bool_leaf
        new_op_def)
  from negation_involution_de_morgan[where a = example_filter_a
      and a' = "column_ne (getitem_column example_table ''a'') (LitInt 1)"
      and b = "MdbColumnOperand (getitem_column example_table ''flag'')"
      and b' = "column_ne (getitem_column example_table ''flag'') (LitStr ''TRUE'')"
      and v = 1 and c = "''b''"] ha hb
  have three: "invert (bool_or example_filter_a (MdbColumnOperand (getitem_column example_table ''flag'')))
       = Inr (bool_and (column_ne (getitem_column example_table ''a'') (LitInt 1))
                (column_ne (getitem_column example_table ''flag'') (LitStr ''TRUE'')))
     \<and> invert (column_or (MdbColumn 1 ''b'') (MdbColumnOperand (getitem_column example_table ''flag'')))
       = Inr (bool_and (MdbComputedBoolColumnOpArg 1 ''b'' ''!='' (Literal (LitStr ''TRUE'')))
                (column_ne (getitem_column example_table ''flag'') (LitStr ''TRUE'')))"
    by blast
  from h one wf ct wf' h' two i w ha hb three show ?thesis by blast
qed

text \<open>
  The counterexample to C7 as stated: at \<^verbatim>\<open>(t['a'] == 1) & t['flag']\<close> the negation is
  \<^verbatim>\<open>(a != 1) | (flag != 'TRUE')\<close>, and its negation is \<^verbatim>\<open>(a = 1) & (flag = 'TRUE')\<close>, a
  column whose second child is a comparison where \<open>p\<close> has the column \<^verbatim>\<open>t['flag']\<close>.
\<close>

theorem double_negation_interprets_plain_operand:
  "invert example_filter_flag
     = Inr (bool_or (column_ne (getitem_column example_table ''a'') (LitInt 1))
              (column_ne (getitem_column example_table ''flag'') (LitStr ''TRUE'')))
   \<and> invert (bool_or (column_ne (getitem_column example_table ''a'') (LitInt 1))
              (column_ne (getitem_column example_table ''flag'') (LitStr ''TRUE'')))
     = Inr (bool_and example_filter_a
              (column_eq (getitem_column example_table ''flag'') (LitStr ''TRUE'')))
   \<and> bool_and example_filter_a
         (column_eq (getitem_column example_table ''flag'') (LitStr ''TRUE''))
       \<noteq> example_filter_flag"
  by (simp add: example_filter_flag_def example_filter_a_def bool_and_def bool_or_def
      column_eq_def column_ne_def getitem_column_def example_table_def
      interpret_as_bool_leaf new_op_def)

subsection \<open>Projections\<close>

lemma narrow_columns_ok:
  "narrowing cur rest \<Longrightarrow> narrow_columns cur rest = Inr (last (cur # rest))"
  by (induction cur rest rule: narrow_columns.induct)
     (auto simp: Let_def list_all_iff filter_empty_conv)

lemma narrow_columns_fail:
  "narrowing cur pre \<Longrightarrow> offending (last (cur # pre)) next_columns \<noteq> [] \<Longrightarrow>
   narrow_columns cur (pre @ next_columns # post)
     = Inl (narrowing_error (offending (last (cur # pre)) next_columns))"
proof (induction cur pre rule: narrow_columns.induct)
  case (1 curr_columns)
  then show ?case by (simp add: Let_def offending_def narrowing_error_def)
next
  case (2 curr_columns next_columns' rest)
  from "2.prems" have sub: "filter (\<lambda>a. a \<notin> set curr_columns) next_columns' = []"
    by (auto simp: list_all_iff filter_empty_conv)
  from "2.prems" have "narrowing next_columns' rest"
    "offending (last (next_columns' # rest)) next_columns \<noteq> []" by auto
  with "2.IH"[OF refl] sub show ?case by (simp add: Let_def)
qed

lemma where_clause_version:
  assumes "u_version_number t' = u_version_number t"
  shows "u_construct_where_clause p t' = u_construct_where_clause p t"
proof (induction p)
  case (MdbComputedBoolColumnOpArg v c op arg)
  show ?case by (simp only: u_construct_where_clause.simps assms)
next
  case (MdbComputedBoolColumnOpColumn a b op)
  then show ?case by (simp only: u_construct_where_clause.simps)
next
  case (MdbColumnOperand col)
  obtain v c where col: "col = MdbColumn v c" by (cases col)
  show ?case
    unfolding col by (simp only: u_construct_where_clause.simps interpret_as_bool_leaf assms)
qed

lemma column_args_rows [simp]: "column_args (map u_SelectRowsOp ps) = []"
  by (induction ps) auto

lemma row_args_rows [simp]: "row_args (map u_SelectRowsOp ps) = ps"
  by (induction ps) auto

lemma column_args_append: "column_args (xs @ ys) = column_args xs @ column_args ys"
  by (induction xs rule: column_args.induct) auto

lemma row_args_append: "row_args (xs @ ys) = row_args xs @ row_args ys"
  by (induction xs rule: row_args.induct) auto

lemma where_clause_of_cong:
  "row_args (u_ops t') = row_args (u_ops t) \<Longrightarrow> u_version_number t' = u_version_number t \<Longrightarrow>
   where_clause_of t' = where_clause_of t"
proof -
  assume rows: "row_args (u_ops t') = row_args (u_ops t)"
    and v: "u_version_number t' = u_version_number t"
  show ?thesis
  proof (cases "row_args (u_ops t)")
    case Nil
    with rows show ?thesis by (simp add: where_clause_of_def)
  next
    case (Cons p ps)
    with rows where_clause_version[OF v, of p] show ?thesis
      by (simp add: where_clause_of_def Let_def)
  qed
qed

lemma to_pd_cong:
  "u_construct_sql t' = u_construct_sql t \<Longrightarrow> u_table_schema t' = u_table_schema t \<Longrightarrow>
   u_data_list t' = u_data_list t \<Longrightarrow> to_pd E t' = to_pd E t"
  by (simp add: to_pd_def cong: sum.case_cong prod.case_cong)

text \<open>
  Claim C6. Let the projections of a table be \<open>first # rest\<close>, in the order applied. If
  every list has only columns of the list before it, the select clause names exactly the
  columns of the last list, and the SQL and the materialized result are those of the
  table with the same row filters and the last projection alone. If instead some list is
  the first to have a column that the list before it does not have, then building the
  select clause, building the SQL and materializing all fail with the \<open>ValueError\<close> whose
  message names the offending columns: the columns of that list that are not in the list
  before it, of which there is at least one.
\<close>

theorem successive_projections:
  assumes "column_args (u_ops t) = first # rest"
  shows "(narrowing first rest \<longrightarrow>
            select_clause_of (u_ops t) = Inr (select_columns_sql (last (first # rest)))
            \<and> u_construct_sql t = u_construct_sql (only_last_columns t (last (first # rest)))
            \<and> to_pd E t = to_pd E (only_last_columns t (last (first # rest))))
       \<and> (rest = pre @ next_columns # post \<and> narrowing first pre
            \<and> \<not> set next_columns \<subseteq> set (last (first # pre)) \<longrightarrow>
            offending (last (first # pre)) next_columns \<noteq> []
            \<and> set (offending (last (first # pre)) next_columns)
                = set next_columns - set (last (first # pre))
            \<and> select_clause_of (u_ops t)
                = Inl (narrowing_error (offending (last (first # pre)) next_columns))
            \<and> u_construct_sql t
                = Inl (narrowing_error (offending (last (first # pre)) next_columns))
            \<and> to_pd E t = Inl (narrowing_error (offending (last (first # pre)) next_columns)))"
proof (intro conjI impI)
  assume ok: "narrowing first rest"
  let ?last = "last (first # rest)"
  show sel: "select_clause_of (u_ops t) = Inr (select_columns_sql ?last)"
    using assms narrow_columns_ok[OF ok]
    by (simp add: select_clause_of_def select_columns_sql_def)
  have "select_clause_of (u_ops (only_last_columns t ?last)) = Inr (select_columns_sql ?last)"
    by (simp add: only_last_columns_def select_clause_of_def select_columns_sql_def
        column_args_append)
  moreover have "where_clause_of (only_last_columns t ?last) = where_clause_of t"
    by (rule where_clause_of_cong) (simp_all add: only_last_columns_def row_args_append)
  ultimately show sql: "u_construct_sql t = u_construct_sql (only_last_columns t ?last)"
    using sel by (simp add: u_construct_sql_def)
  show "to_pd E t = to_pd E (only_last_columns t ?last)"
    using sql by (intro to_pd_cong) (simp_all add: only_last_columns_def)
next
  assume bad: "rest = pre @ next_columns # post \<and> narrowing first pre
      \<and> \<not> set next_columns \<subseteq> set (last (first # pre))"
  let ?off = "offending (last (first # pre)) next_columns"
  from bad show ne: "?off \<noteq> []"
    by (auto simp: offending_def filter_empty_conv)
  show "set ?off = set next_columns - set (last (first # pre))"
    by (auto simp: offending_def)
  from bad ne have "narrow_columns first rest = Inl (narrowing_error ?off)"
    by (simp add: narrow_columns_fail)
  with assms show sel: "select_clause_of (u_ops t) = Inl (narrowing_error ?off)"
    by (simp add: select_clause_of_def)
  then show sql: "u_construct_sql t = Inl (narrowing_error ?off)"
    by (simp add: u_construct_sql_def)
  then show "to_pd E t = Inl (narrowing_error ?off)"
    by (simp add: to_pd_def)
qed

text \<open>
  The theorem at the two examples of the claim: \<open>t[[A,B,C]][[A,B]]\<close> is \<open>t[[A,B]]\<close>, and
  \<open>t[[A,B]][[A,C]]\<close> fails naming \<open>C\<close>.
\<close>

theorem successive_projections_witness:
  "column_args (u_ops example_ABC_AB) = [''A'', ''B'', ''C''] # [[''A'', ''B'']]
   \<and> narrowing [''A'', ''B'', ''C''] [[''A'', ''B'']]
   \<and> select_clause_of (u_ops example_ABC_AB) = Inr (select_columns_sql [''A'', ''B''])
   \<and> to_pd recording_engine example_ABC_AB
       = to_pd recording_engine (getitem_columns example_two_filters [''A'', ''B''])
   \<and> column_args (u_ops example_AB_AC) = [''A'', ''B''] # [] @ [''A'', ''C''] # []
   \<and> \<not> set [''A'', ''C''] \<subseteq> set (last ([''A'', ''B''] # []))
   \<and> to_pd recording_engine example_AB_AC
       = Inl (ValueError ''Tried to select columns C after already filtering them out'')"
proof -
  have h: "column_args (u_ops example_ABC_AB) = [''A'', ''B'', ''C''] # [[''A'', ''B'']]"
    by (simp add: example_ABC_AB_def getitem_columns_def example_two_filters_def
        getitem_rows_def example_table_def example_filter_a_def example_filter_b_def
        column_eq_def column_gt_def getitem_column_def)
  have n: "narrowing [''A'', ''B'', ''C''] [[''A'', ''B'']]" by simp
  have e: "only_last_columns example_ABC_AB [''A'', ''B'']
      = getitem_columns example_two_filters [''A'', ''B'']"
    by (simp add: only_last_columns_def example_ABC_AB_def getitem_columns_def
        example_two_filters_def getitem_rows_def example_table_def example_filter_a_def
        example_filter_b_def column_eq_def column_gt_def getitem_column_def)
  have ok: "select_clause_of (u_ops example_ABC_AB) = Inr (select_columns_sql [''A'', ''B''])
      \<and> to_pd recording_engine example_ABC_AB
          = to_pd recording_engine (getitem_columns example_two_filters [''A'', ''B''])"
    using successive_projections[OF h, where pre = "[]" and next_columns = "[]" and post = "[]"
        and E = recording_engine] n e
    by simp
  have h': "column_args (u_ops example_AB_AC) = [''A'', ''B''] # [] @ [''A'', ''C''] # []"
    by (simp add: example_AB_AC_def getitem_columns_def example_table_def)
  have b: "\<not> set [''A'', ''C''] \<subseteq> set (last ([''A'', ''B''] # []))" by simp
  have off: "offending (last ([''A'', ''B''] # [])) [''A'', ''C''] = [''C'']"
    by (simp add: offending_def)
  have bad: "to_pd recording_engine example_AB_AC
      = Inl (ValueError ''Tried to select columns C after already filtering them out'')"
    using successive_projections[OF h', where pre = "[]" and next_columns = "[''A'', ''C'']"
        and post = "[]" and E = recording_engine] off
    by (simp add: narrowing_error_def)
  from h n ok h' b bad show ?thesis by blast
qed

subsection \<open>Segments below a delete_all\<close>

lemma to_pd_loop_stops:
  "data_file_type d = ''delete_all'' \<Longrightarrow>
   to_pd_loop E s w keys i (xs @ d # ys) st = to_pd_loop E s w keys i xs st"
proof (induction xs arbitrary: i st)
  case Nil
  then show ?case by simp
next
  case (Cons x xs)
  then show ?case by (simp split: sum.splits)
qed

lemma construct_sql_data_list [simp]:
  "u_construct_sql (t\<lparr>u_data_list := x\<rparr>) = u_construct_sql t"
proof -
  have "where_clause_of (t\<lparr>u_data_list := x\<rparr>) = where_clause_of t"
    by (rule where_clause_of_cong) simp_all
  then show ?thesis by (simp add: u_construct_sql_def cong: sum.case_cong)
qed

lemma to_pd_delete_all:
  "data_file_type d = ''delete_all'' \<Longrightarrow>
   to_pd E (t\<lparr>u_data_list := older @ d # newer\<rparr>) = to_pd E (t\<lparr>u_data_list := newer\<rparr>)"
  by (simp add: to_pd_def to_pd_loop_stops cong: sum.case_cong prod.case_cong)

text \<open>
  Claim C2. If the segment at position \<open>k\<close> of the data list is a \<^verbatim>\<open>delete_all\<close>, then for
  every schema and all operations of the table, and whatever the query engine and the
  data frame library do, materializing the table gives the result of materializing only
  the segments after position \<open>k\<close>; and replacing the segments before position \<open>k\<close> by
  any others does not change the result. The walk goes from the newest segment to the
  oldest and ends at the first \<^verbatim>\<open>delete_all\<close> it meets (lemma \<open>to_pd_loop_stops\<close>), so no
  older segment is read, and none contributes a row or an error.
\<close>

theorem delete_all_hides_older_segments:
  assumes "k < length (u_data_list t)"
    and "data_file_type (u_data_list t ! k) = ''delete_all''"
  shows "to_pd E t = to_pd E (t\<lparr>u_data_list := drop (Suc k) (u_data_list t)\<rparr>)
       \<and> to_pd E (t\<lparr>u_data_list := older @ drop k (u_data_list t)\<rparr>) = to_pd E t"
proof -
  let ?d = "u_data_list t ! k"
  let ?newer = "drop (Suc k) (u_data_list t)"
  from assms(1) have split: "u_data_list t = take k (u_data_list t) @ ?d # ?newer"
    by (rule id_take_nth_drop)
  from assms(1) have drop: "drop k (u_data_list t) = ?d # ?newer"
    by (simp add: Cons_nth_drop_Suc)
  have "to_pd E (t\<lparr>u_data_list := take k (u_data_list t) @ ?d # ?newer\<rparr>)
      = to_pd E (t\<lparr>u_data_list := ?newer\<rparr>)"
    using assms(2) by (rule to_pd_delete_all)
  with split have a: "to_pd E t = to_pd E (t\<lparr>u_data_list := ?newer\<rparr>)" by simp
  have "to_pd E (t\<lparr>u_data_list := older @ ?d # ?newer\<rparr>) = to_pd E (t\<lparr>u_data_list := ?newer\<rparr>)"
    using assms(2) by (rule to_pd_delete_all)
  with a drop show ?thesis by simp
qed

text \<open>
  The theorem at the segments \<open>write w1, bogus w2, delete_all, write w3\<close>: the only query
  is the one for the newest segment, and the unsupported segment below the
  \<^verbatim>\<open>delete_all\<close> raises nothing.
\<close>

theorem delete_all_hides_older_segments_witness:
  "(2::nat) < length (u_data_list example_segment_table)
   \<and> data_file_type (u_data_list example_segment_table ! 2) = ''delete_all''
   \<and> to_pd recording_engine example_segment_table
       = to_pd recording_engine (example_segment_table\<lparr>u_data_list :=
            [\<lparr>data_file_type = ''write'', data_filename = ''w3.parquet''\<rparr>]\<rparr>)
   \<and> to_pd recording_engine example_segment_table
       = Inr [''SELECT t0.* FROM t0 WHERE TRUE'']"
proof -
  have h1: "(2::nat) < length (u_data_list example_segment_table)"
    by (simp add: example_segment_table_def example_segments_def)
  have h2: "data_file_type (u_data_list example_segment_table ! 2) = ''delete_all''"
    by (simp add: example_segment_table_def example_segments_def)
  have d: "drop (Suc 2) (u_data_list example_segment_table)
      = [\<lparr>data_file_type = ''write'', data_filename = ''w3.parquet''\<rparr>]"
    by (simp add: example_segment_table_def example_segments_def)
  have r: "to_pd recording_engine (example_segment_table\<lparr>u_data_list :=
            [\<lparr>data_file_type = ''write'', data_filename = ''w3.parquet''\<rparr>]\<rparr>)
      = Inr [''SELECT t0.* FROM t0 WHERE TRUE'']"
    by (simp add: to_pd_def u_construct_sql_def select_clause_of_def where_clause_of_def
        example_segment_table_def default_TableSchema_def recording_engine_def
        materialize_write_def write_sql_def replace_def u_table_name_placeholder_def Let_def)
  from delete_all_hides_older_segments[OF h1 h2, of recording_engine "[]"] h1 h2 d r
  show ?thesis by simp
qed

subsection \<open>Userspace layering\<close>

text \<open>
  Claim C4. For a userspace other than prod: when neither version exists, \<^verbatim>\<open>read\<close> fails
  with a \<open>ValueError\<close>. Otherwise it returns the table whose data list is prod's entries
  followed by the userspace's entries (each file name resolved with \<^verbatim>\<open>prepend_data_dir\<close>),
  with no operations, whose schema is the one named by the userspace version if it names
  one, else the one named by prod, else the default schema, and whose version number is
  the maximum of the version numbers present. This is for version numbers that are not
  below \<open>-1\<close>, the value from which \<^verbatim>\<open>read\<close> starts its maximum, so for all that are not
  negative.
\<close>

theorem read_userspace_layering:
  assumes "userspace \<noteq> prod_userspace_name"
    and "get_current_table_version c userspace table_name max_version = user_version"
    and "get_current_table_version c prod_userspace_name table_name max_version = prod_version"
    and "list_all (\<lambda>v. - 1 \<le> v) (versions_present prod_version user_version)"
  shows "(user_version = None \<and> prod_version = None \<longrightarrow>
            read c userspace table_name max_version
              = Inl (ValueError (''Requested table '' @ userspace @ ''/'' @ table_name
                       @ '' does not exist and '' @ prod_userspace_name @ ''/'' @ table_name
                       @ '' also does not exist'')))
       \<and> (user_version \<noteq> None \<or> prod_version \<noteq> None \<longrightarrow>
            read c userspace table_name max_version
              = Inr \<lparr>u_version_number = Max (set (versions_present prod_version user_version)),
                     u_table_schema =
                       schema_of c (case own_schema_filename user_version of
                                      Some f \<Rightarrow> Some f
                                    | None \<Rightarrow> own_schema_filename prod_version),
                     u_data_list = entries_of c prod_version @ entries_of c user_version,
                     u_ops = []\<rparr>)"
proof (intro conjI impI)
  assume "user_version = None \<and> prod_version = None"
  with assms show "read c userspace table_name max_version
      = Inl (ValueError (''Requested table '' @ userspace @ ''/'' @ table_name
               @ '' does not exist and '' @ prod_userspace_name @ ''/'' @ table_name
               @ '' also does not exist''))"
    by (simp add: read_def)
next
  assume some: "user_version \<noteq> None \<or> prod_version \<noteq> None"
  show "read c userspace table_name max_version
      = Inr \<lparr>u_version_number = Max (set (versions_present prod_version user_version)),
             u_table_schema =
               schema_of c (case own_schema_filename user_version of
                              Some f \<Rightarrow> Some f
                            | None \<Rightarrow> own_schema_filename prod_version),
             u_data_list = entries_of c prod_version @ entries_of c user_version,
             u_ops = []\<rparr>"
  proof (cases user_version)
    case None
    with some obtain p where p: "prod_version = Some p" by auto
    with None assms show ?thesis
      by (simp add: read_def make_table_def entries_of_def schema_of_def
          own_schema_filename_def versions_present_def)
  next
    case (Some u)
    show ?thesis
    proof (cases prod_version)
      case None
      with Some assms show ?thesis
        by (simp add: read_def make_table_def entries_of_def schema_of_def
            own_schema_filename_def versions_present_def split: option.splits)
    next
      case (Some p)
      with \<open>user_version = Some u\<close> assms show ?thesis
        by (simp add: read_def make_table_def entries_of_def schema_of_def
            own_schema_filename_def versions_present_def max.commute split: option.splits)
    qed
  qed
qed

text \<open>
  The theorem at prod version 5 and a dev version 6 with its own schema: prod's entries
  come first, the version number is 6 and the schema is dev's. At a table that only prod
  has, at version 7: reading it in dev returns prod's entries and the version number 7.
  At a table that neither has: the \<open>ValueError\<close>.
\<close>

theorem read_userspace_layering_witness:
  "''dev'' \<noteq> prod_userspace_name
   \<and> read example_layered_client ''dev'' ''t'' None
       = Inr \<lparr>u_version_number = 6,
              u_table_schema = \<lparr>deduplication_keys = Some [''k'']\<rparr>,
              u_data_list = [\<lparr>data_file_type = ''write'', data_filename = ''/data/p1''\<rparr>,
                             \<lparr>data_file_type = ''delete_all'', data_filename = []\<rparr>,
                             \<lparr>data_file_type = ''delete'', data_filename = ''/data/d1''\<rparr>],
              u_ops = []\<rparr>
   \<and> read example_prod_only_client ''dev'' ''t'' None
       = Inr \<lparr>u_version_number = 7,
              u_table_schema = default_TableSchema,
              u_data_list = [\<lparr>data_file_type = ''write'', data_filename = ''/data/p1''\<rparr>],
              u_ops = []\<rparr>
   \<and> read example_prod_only_client ''dev'' ''missing'' None
       = Inl (ValueError ''Requested table dev/missing does not exist and prod/missing also does not exist'')"
proof -
  let ?u = "Some \<lparr>version_number = 6, table_schema_filename = Some ''dev.schema'',
                      data_list_filename = ''dev.list''\<rparr>"
  let ?p = "Some \<lparr>version_number = 5, table_schema_filename = Some ''prod.schema'',
                      data_list_filename = ''prod.list''\<rparr>"
  let ?p7 = "Some \<lparr>version_number = 7, table_schema_filename = None,
                      data_list_filename = ''prod.list''\<rparr>"
  have h1: "''dev'' \<noteq> prod_userspace_name" by (simp add: prod_userspace_name_def)
  have h2: "get_current_table_version example_layered_client ''dev'' ''t'' None = ?u"
    by (simp add: example_layered_client_def)
  have h3: "get_current_table_version example_layered_client prod_userspace_name ''t'' None = ?p"
    by (simp add: example_layered_client_def prod_userspace_name_def)
  have h4: "list_all (\<lambda>v. - 1 \<le> v) (versions_present ?p ?u)"
    by (simp add: versions_present_def)
  have v: "Max (set (versions_present ?p ?u)) = 6"
    by (simp add: versions_present_def)
  have s: "schema_of example_layered_client
      (case own_schema_filename ?u of Some f \<Rightarrow> Some f | None \<Rightarrow> own_schema_filename ?p)
      = \<lparr>deduplication_keys = Some [''k'']\<rparr>"
    by (simp add: schema_of_def own_schema_filename_def example_layered_client_def)
  have e: "entries_of example_layered_client ?p @ entries_of example_layered_client ?u
      = [\<lparr>data_file_type = ''write'', data_filename = ''/data/p1''\<rparr>,
         \<lparr>data_file_type = ''delete_all'', data_filename = []\<rparr>,
         \<lparr>data_file_type = ''delete'', data_filename = ''/data/d1''\<rparr>]"
    by (simp add: entries_of_def example_layered_client_def
        u_prepend_data_dir_data_file_entries_def)
  from read_userspace_layering[OF h1 h2 h3 h4]
  have both: "read example_layered_client ''dev'' ''t'' None
       = Inr \<lparr>u_version_number = 6,
              u_table_schema = \<lparr>deduplication_keys = Some [''k'']\<rparr>,
              u_data_list = [\<lparr>data_file_type = ''write'', data_filename = ''/data/p1''\<rparr>,
                             \<lparr>data_file_type = ''delete_all'', data_filename = []\<rparr>,
                             \<lparr>data_file_type = ''delete'', data_filename = ''/data/d1''\<rparr>],
              u_ops = []\<rparr>"
    by (simp only: v s e) simp
  have g2: "get_current_table_version example_prod_only_client ''dev'' ''t'' None = None"
    by (simp add: example_prod_only_client_def)
  have g3: "get_current_table_version example_prod_only_client prod_userspace_name ''t'' None = ?p7"
    by (simp add: example_prod_only_client_def prod_userspace_name_def)
  have g4: "list_all (\<lambda>v. - 1 \<le> v) (versions_present ?p7 None)"
    by (simp add: versions_present_def)
  have v7: "Max (set (versions_present ?p7 None)) = 7"
    by (simp add: versions_present_def)
  have s7: "schema_of example_prod_only_client
      (case own_schema_filename None of Some f \<Rightarrow> Some f | None \<Rightarrow> own_schema_filename ?p7)
      = default_TableSchema"
    by (simp add: schema_of_def own_schema_filename_def)
  have e7: "entries_of example_prod_only_client ?p7 @ entries_of example_prod_only_client None
      = [\<lparr>data_file_type = ''write'', data_filename = ''/data/p1''\<rparr>]"
    by (simp add: entries_of_def example_prod_only_client_def
        u_prepend_data_dir_data_file_entries_def)
  from read_userspace_layering[OF h1 g2 g3 g4]
  have prod_only: "read example_prod_only_client ''dev'' ''t'' None
       = Inr \<lparr>u_version_number = 7,
              u_table_schema = default_TableSchema,
              u_data_list = [\<lparr>data_file_type = ''write'', data_filename = ''/data/p1''\<rparr>],
              u_ops = []\<rparr>"
    by (simp only: v7 s7 e7) simp
  have m2: "get_current_table_version example_prod_only_client ''dev'' ''missing'' None = None"
    by (simp add: example_prod_only_client_def)
  have m3: "get_current_table_version example_prod_only_client prod_userspace_name ''missing'' None
      = None"
    by (simp add: example_prod_only_client_def)
  have m4: "list_all (\<lambda>v. - 1 \<le> v) (versions_present None None)"
    by (simp add: versions_present_def)
  from read_userspace_layering[OF h1 m2 m3 m4]
  have neither: "read example_prod_only_client ''dev'' ''missing'' None
       = Inl (ValueError ''Requested table dev/missing does not exist and prod/missing also does not exist'')"
    by (simp add: prod_userspace_name_def)
  from h1 both prod_only neither show ?thesis by blast
qed

end
